theory Spec2Isabelle
  imports Complex_Main "HOL-Library.Multiset"
begin

section \<open>Python values, exceptions and callbacks\<close>

text \<open>
  The exceptions raised by \<^verbatim>\<open>toro/__init__.py\<close>: the two it declares (\<open>NotReady\<close>,
  \<open>AlreadySet\<close>), the two it imports from the standard \<open>Queue\<close> module (\<open>Full\<close>, \<open>Empty\<close>)
  and the built-in ones it raises or can run into.
\<close>

datatype error =
  TypeError | ValueError | AssertionError | IndexError | Full | Empty | NotReady | AlreadySet

text \<open>
  The values handed to callbacks: an item or result of the caller's type \<open>'a\<close>, \<open>None\<close>,
  \<open>True\<close>/\<open>False\<close>, and the class object \<open>Empty\<close> that a timed-out queue getter receives
  as a sentinel (\<open>timeout_args = (Empty,)\<close>).
\<close>

datatype 'a pyval = Obj 'a | PyNone | PyBool bool | EmptyClass

text \<open>
  Callables. \<open>User l\<close> is a callback of the caller: an observer that records the arguments
  it is called with under its label \<open>l\<close> (it does not call back into the primitives).
  \<open>PutCallback f\<close> is the closure \<open>_callback\<close> that \<open>Queue.put\<close> builds around the caller's
  \<open>f\<close>; \<open>AcquireLambda f\<close> is \<open>lambda value: callback(value is not Empty)\<close> of
  \<open>Semaphore.acquire\<close>.
\<close>

datatype fn = User nat | PutCallback fn | AcquireLambda fn

text \<open>
  A \<open>callback\<close> argument as the code inspects it: by truthiness (\<open>if callback:\<close>) and by
  \<open>callable(callback)\<close>. \<open>Falsy\<close> is \<open>None\<close> (the default) or any other falsy object that
  is not callable, \<open>Junk\<close> a truthy object that is not callable (say \<open>5\<close>). A callable
  is truthy, as functions, bound methods and partials are.
\<close>

datatype callback = Falsy | Junk | Callable fn

fun truthy :: "callback \<Rightarrow> bool" where
  "truthy Falsy = False"
| "truthy Junk = True"
| "truthy (Callable f) = True"

fun callable :: "callback \<Rightarrow> bool" where
  "callable (Callable f) = True"
| "callable Falsy = False"
| "callable Junk = False"

text \<open>
  \<open>_check_callback\<close>: raises \<open>TypeError\<close> unless the argument is callable. On success
  the model hands back the callable itself.
\<close>

definition check_callback :: "callback \<Rightarrow> error + fn" where
  "check_callback callback =
     (if \<not> callable callback then Inl TypeError
      else case callback of Callable f \<Rightarrow> Inr f | _ \<Rightarrow> Inl TypeError)"

section \<open>The event loop and the object store\<close>

text \<open>
  What the IOLoop holds: \<open>partial(callback, *args)\<close> and \<open>partial(waiter.run, *args)\<close>,
  the waiter named by its object identity.
\<close>

datatype 'a task = Partial fn "'a pyval list" | PartialRun nat "'a pyval list"

text \<open>
  The state shared by all primitives on one loop. \<open>waiter_callback\<close> is the store of
  \<open>_Waiter\<close> objects: entry \<open>w\<close> is the \<open>callback\<close> attribute of waiter \<open>w\<close> (\<open>None\<close> once it
  has run); waiters are referenced both from a primitive's deque and from the loop's
  timers. \<open>pending\<close> and \<open>timers\<close> are the loop's callbacks and timeouts, \<open>trace\<close> records
  each call of a user callback and \<open>logged\<close> each \<open>logging.error\<close> of
  \<open>handle_callback_exception\<close>.
\<close>

record 'a runtime =
  waiter_callback :: "fn option list"
  pending :: "'a task list"
  timers :: "(real \<times> 'a task) list"
  trace :: "(nat \<times> 'a pyval list) list"
  logged :: "error list"

definition new_loop :: "'a runtime" where
  "new_loop = \<lparr>waiter_callback = [], pending = [], timers = [], trace = [], logged = []\<rparr>"

text \<open>
  Modelled from the spec: \<open>tornado.ioloop.IOLoop\<close> is not part of the repository. Section 6
  gives its contract: \<open>schedule(fn)\<close> enqueues \<open>fn\<close> for the next scheduler turn, FIFO;
  \<open>arm_timer(relative_seconds, fn)\<close> fires \<open>fn\<close> later. The clock is left out: the delay
  is stored, and an armed timer may fire at any later moment (\<open>fire_timeout\<close>).
\<close>

definition add_callback :: "'a task \<Rightarrow> 'a runtime \<Rightarrow> 'a runtime" where
  "add_callback t rt = rt\<lparr>pending := pending rt @ [t]\<rparr>"

definition add_timeout :: "real \<Rightarrow> 'a task \<Rightarrow> 'a runtime \<Rightarrow> 'a runtime" where
  "add_timeout delay t rt = rt\<lparr>timers := timers rt @ [(delay, t)]\<rparr>"

text \<open>
  Calling a callable. A user callback records the call; \<open>_callback(success)\<close> of
  \<open>Queue.put\<close> does \<open>io_loop.add_callback(partial(callback, success))\<close>; the lambda of
  \<open>Semaphore.acquire\<close> calls its callback with \<open>value is not Empty\<close>. The two closures take
  one argument: any other call is a \<open>TypeError\<close>, which every call site (\<open>_run_callback\<close>,
  the loop) catches and logs.
\<close>

fun invoke :: "fn \<Rightarrow> 'a pyval list \<Rightarrow> 'a runtime \<Rightarrow> 'a runtime" where
  "invoke (User l) args rt = rt\<lparr>trace := trace rt @ [(l, args)]\<rparr>"
| "invoke (PutCallback f) [success] rt = add_callback (Partial f [success]) rt"
| "invoke (PutCallback f) args rt = rt\<lparr>logged := logged rt @ [TypeError]\<rparr>"
| "invoke (AcquireLambda f) [v] rt = invoke f [PyBool (v \<noteq> EmptyClass)] rt"
| "invoke (AcquireLambda f) args rt = rt\<lparr>logged := logged rt @ [TypeError]\<rparr>"

text \<open>
  \<open>ToroBase._next_tick\<close>: a truthy callback is checked and scheduled, a falsy one ignored.
\<close>

definition next_tick :: "callback \<Rightarrow> 'a pyval list \<Rightarrow> 'a runtime \<Rightarrow> error + 'a runtime" where
  "next_tick callback args rt =
     (if truthy callback then
        (case check_callback callback of
           Inl e \<Rightarrow> Inl e
         | Inr f \<Rightarrow> Inr (add_callback (Partial f args) rt))
      else Inr rt)"

text \<open>
  \<open>ToroBase._run_callback\<close>: calls the callback and catches every exception, which
  \<open>handle_callback_exception\<close> logs. Calling an object that is not callable raises
  \<open>TypeError\<close> inside the \<open>try\<close>.
\<close>

definition run_callback :: "callback \<Rightarrow> 'a pyval list \<Rightarrow> 'a runtime \<Rightarrow> 'a runtime" where
  "run_callback callback args rt =
     (case callback of
        Callable f \<Rightarrow> invoke f args rt
      | _ \<Rightarrow> rt\<lparr>logged := logged rt @ [TypeError]\<rparr>)"

section \<open>\<open>_Waiter\<close>\<close>

definition waiter_cb :: "'a runtime \<Rightarrow> nat \<Rightarrow> fn option" where
  "waiter_cb rt w =
     (if w < length (waiter_callback rt) then waiter_callback rt ! w else None)"

text \<open>The property \<open>expired\<close>: \<open>not self.callback\<close>.\<close>

definition expired :: "'a runtime \<Rightarrow> nat \<Rightarrow> bool" where
  "expired rt w = (waiter_cb rt w = None)"

text \<open>
  \<open>_Waiter.__init__\<close>: checks the callback, arms the timer when a timeout is given and
  stores the callback (\<open>stack_context.wrap\<close> only carries the caller's context along).
  The result is the new waiter's identity.
\<close>

definition Waiter_init ::
  "real option \<Rightarrow> 'a pyval list \<Rightarrow> callback \<Rightarrow> 'a runtime \<Rightarrow> error + (nat \<times> 'a runtime)" where
  "Waiter_init timeout timeout_args callback rt =
     (case check_callback callback of
        Inl e \<Rightarrow> Inl e
      | Inr f \<Rightarrow>
          (let w = length (waiter_callback rt);
               rt1 = (case timeout of
                        None \<Rightarrow> rt
                      | Some delay \<Rightarrow> add_timeout delay (PartialRun w timeout_args) rt)
           in Inr (w, rt1\<lparr>waiter_callback := waiter_callback rt1 @ [Some f]\<rparr>)))"

text \<open>\<open>_Waiter.run\<close>: takes the callback out and calls it; a second run does nothing.\<close>

definition Waiter_run :: "nat \<Rightarrow> 'a pyval list \<Rightarrow> 'a runtime \<Rightarrow> 'a runtime" where
  "Waiter_run w args rt =
     (case waiter_cb rt w of
        None \<Rightarrow> rt
      | Some f \<Rightarrow> invoke f args (rt\<lparr>waiter_callback := (waiter_callback rt)[w := None]\<rparr>))"

text \<open>
  Modelled from the spec: a scheduler turn runs the continuations that are ready when it
  starts, in FIFO order; what they schedule waits for the next turn. A timer that fires
  runs its continuation.
\<close>

fun exec_task :: "'a task \<Rightarrow> 'a runtime \<Rightarrow> 'a runtime" where
  "exec_task (Partial f args) rt = invoke f args rt"
| "exec_task (PartialRun w args) rt = Waiter_run w args rt"

definition run_turn :: "'a runtime \<Rightarrow> 'a runtime" where
  "run_turn rt = fold exec_task (pending rt) (rt\<lparr>pending := []\<rparr>)"

definition fire_timeout :: "nat \<Rightarrow> 'a runtime \<Rightarrow> 'a runtime" where
  "fire_timeout i rt =
     (if i < length (timers rt)
      then exec_task (snd (timers rt ! i))
             (rt\<lparr>timers := take i (timers rt) @ drop (Suc i) (timers rt)\<rparr>)
      else rt)"

section \<open>\<open>Queue\<close>, \<open>PriorityQueue\<close>, \<open>LifoQueue\<close>\<close>

text \<open>
  The class of a queue decides \<open>_put\<close> and \<open>_get\<close>. \<open>PriorityQueue._put\<close> and \<open>._get\<close>
  take \<open>heappush\<close> and \<open>heappop\<close> as parameters (defaults: the standard library's
  \<open>heapq\<close>); \<open>heappop\<close> returns the item and the heap left, \<open>None\<close> standing for the
  \<open>IndexError\<close> of an empty heap.
\<close>

datatype 'a qclass =
  Queue
| PriorityQueue "'a list \<Rightarrow> 'a \<Rightarrow> 'a list" "'a list \<Rightarrow> ('a \<times> 'a list) option"
| LifoQueue

record 'a queue_obj =
  cls :: "'a qclass"
  maxsize :: "int option"
  getters :: "nat list"
  putters :: "('a \<times> nat) list"
  queue :: "'a list"

text \<open>\<open>Queue.__init__\<close> with \<open>_init\<close>.\<close>

definition Queue_init :: "'a qclass \<Rightarrow> int option \<Rightarrow> error + 'a queue_obj" where
  "Queue_init c m =
     (if m \<noteq> None \<and> the m < 0 then Inl ValueError
      else Inr \<lparr>cls = c, maxsize = m, getters = [], putters = [], queue = []\<rparr>)"

text \<open>\<open>_put\<close> of the three classes.\<close>

fun q_put :: "'a qclass \<Rightarrow> 'a \<Rightarrow> 'a list \<Rightarrow> 'a list" where
  "q_put Queue item s = s @ [item]"
| "q_put (PriorityQueue heappush heappop) item s = heappush s item"
| "q_put LifoQueue item s = s @ [item]"

text \<open>
  \<open>_get\<close> of the three classes: \<open>popleft()\<close>, \<open>heappop\<close>, \<open>pop()\<close>; each raises
  \<open>IndexError\<close> on an empty container (\<open>None\<close> here).
\<close>

fun q_get :: "'a qclass \<Rightarrow> 'a list \<Rightarrow> ('a \<times> 'a list) option" where
  "q_get Queue s = (case s of [] \<Rightarrow> None | x # xs \<Rightarrow> Some (x, xs))"
| "q_get (PriorityQueue heappush heappop) s = heappop s"
| "q_get LifoQueue s = (if s = [] then None else Some (last s, butlast s))"

definition qsize :: "'a queue_obj \<Rightarrow> nat" where
  "qsize q = length (queue q)"

definition empty :: "'a queue_obj \<Rightarrow> bool" where
  "empty q = (queue q = [])"

definition full :: "'a queue_obj \<Rightarrow> bool" where
  "full q =
     (case maxsize q of
        None \<Rightarrow> False
      | Some m \<Rightarrow> if m = 0 then True else int (qsize q) = m)"

text \<open>The two pruning loops: pop expired waiters off the head of the deque.\<close>

definition consume_expired_getters :: "'a runtime \<Rightarrow> 'a queue_obj \<Rightarrow> 'a queue_obj" where
  "consume_expired_getters rt q = q\<lparr>getters := dropWhile (expired rt) (getters q)\<rparr>"

definition consume_expired_putters :: "'a runtime \<Rightarrow> 'a queue_obj \<Rightarrow> 'a queue_obj" where
  "consume_expired_putters rt q =
     q\<lparr>putters := dropWhile (\<lambda>p. expired rt (snd p)) (putters q)\<rparr>"

text \<open>
  \<open>Queue.put\<close>. The result is the exception raised or \<open>()\<close>, with the state as the call
  leaves it either way.
\<close>

definition Queue_put ::
  "'a \<Rightarrow> callback \<Rightarrow> real option \<Rightarrow> 'a queue_obj \<times> 'a runtime
     \<Rightarrow> (error + unit) \<times> 'a queue_obj \<times> 'a runtime" where
  "Queue_put item callback timeout s =
     (let rt = snd s; q = consume_expired_getters rt (fst s) in
      if getters q \<noteq> [] then
        (if queue q \<noteq> [] then (Inl AssertionError, q, rt)
         else
           let getter = hd (getters q);
               q1 = q\<lparr>getters := tl (getters q)\<rparr>;
               q2 = q1\<lparr>queue := q_put (cls q1) item (queue q1)\<rparr>
           in case q_get (cls q2) (queue q2) of
                None \<Rightarrow> (Inl IndexError, q2, rt)
              | Some (x, rest) \<Rightarrow>
                  (let q3 = q2\<lparr>queue := rest\<rparr>;
                       rt1 = Waiter_run getter [Obj x] rt
                   in case next_tick callback [PyBool True] rt1 of
                        Inl e \<Rightarrow> (Inl e, q3, rt1)
                      | Inr rt2 \<Rightarrow> (Inr (), q3, rt2)))
      else if maxsize q = Some (int (qsize q)) \<and> truthy callback then
        (case check_callback callback of
           Inl e \<Rightarrow> (Inl e, q, rt)
         | Inr f \<Rightarrow>
             (case Waiter_init timeout [PyBool False] (Callable (PutCallback f)) rt of
                Inl e \<Rightarrow> (Inl e, q, rt)
              | Inr (waiter, rt1) \<Rightarrow> (Inr (), q\<lparr>putters := putters q @ [(item, waiter)]\<rparr>, rt1)))
      else if maxsize q = Some (int (qsize q)) then (Inl Full, q, rt)
      else
        (let q1 = q\<lparr>queue := q_put (cls q) item (queue q)\<rparr>
         in case next_tick callback [PyBool True] rt of
              Inl e \<Rightarrow> (Inl e, q1, rt)
            | Inr rt1 \<Rightarrow> (Inr (), q1, rt1)))"

text \<open>
  \<open>Queue.get\<close>. The result is the exception raised, \<open>Some\<close> the item returned, or \<open>None\<close>
  when the call returns nothing (the callback paths).
\<close>

definition Queue_get ::
  "callback \<Rightarrow> real option \<Rightarrow> 'a queue_obj \<times> 'a runtime
     \<Rightarrow> (error + 'a option) \<times> 'a queue_obj \<times> 'a runtime" where
  "Queue_get callback timeout s =
     (let rt = snd s; q = consume_expired_putters rt (fst s) in
      if putters q \<noteq> [] then
        (if \<not> full q then (Inl AssertionError, q, rt)
         else
           let item = fst (hd (putters q));
               putter = snd (hd (putters q));
               q1 = q\<lparr>putters := tl (putters q)\<rparr>;
               q2 = q1\<lparr>queue := q_put (cls q1) item (queue q1)\<rparr>
           in if truthy callback then
                (case q_get (cls q2) (queue q2) of
                   None \<Rightarrow> (Inl IndexError, q2, rt)
                 | Some (x, rest) \<Rightarrow>
                     (Inr None, q2\<lparr>queue := rest\<rparr>,
                      Waiter_run putter [PyBool True] (run_callback callback [Obj x] rt)))
              else
                (let rt1 = add_callback (PartialRun putter [PyBool True]) rt
                 in case q_get (cls q2) (queue q2) of
                      None \<Rightarrow> (Inl IndexError, q2, rt1)
                    | Some (x, rest) \<Rightarrow> (Inr (Some x), q2\<lparr>queue := rest\<rparr>, rt1)))
      else if qsize q \<noteq> 0 then
        (case q_get (cls q) (queue q) of
           None \<Rightarrow> (Inl IndexError, q, rt)
         | Some (x, rest) \<Rightarrow>
             if truthy callback
             then (Inr None, q\<lparr>queue := rest\<rparr>, run_callback callback [Obj x] rt)
             else (Inr (Some x), q\<lparr>queue := rest\<rparr>, rt))
      else if truthy callback then
        (case Waiter_init timeout [EmptyClass] callback rt of
           Inl e \<Rightarrow> (Inl e, q, rt)
         | Inr (waiter, rt1) \<Rightarrow> (Inr None, q\<lparr>getters := getters q @ [waiter]\<rparr>, rt1))
      else (Inl Empty, q, rt))"

section \<open>\<open>AsyncResult\<close>\<close>

record 'a async_result =
  ar_ready :: bool
  ar_value :: "'a pyval"
  ar_waiters :: "nat list"

definition AsyncResult_init :: "'a async_result" where
  "AsyncResult_init = \<lparr>ar_ready = False, ar_value = PyNone, ar_waiters = []\<rparr>"

text \<open>\<open>AsyncResult.set\<close>.\<close>

definition AsyncResult_set ::
  "'a pyval \<Rightarrow> 'a async_result \<times> 'a runtime
     \<Rightarrow> (error + unit) \<times> 'a async_result \<times> 'a runtime" where
  "AsyncResult_set v s =
     (let r = fst s; rt = snd s in
      if ar_ready r then (Inl AlreadySet, r, rt)
      else
        (Inr (),
         r\<lparr>ar_value := v, ar_ready := True, ar_waiters := []\<rparr>,
         fold (\<lambda>waiter. Waiter_run waiter [v]) (ar_waiters r) rt))"

text \<open>
  \<open>AsyncResult.get\<close>: the result is the exception, \<open>Some\<close> the value returned by the
  non-blocking call, or \<open>None\<close> when a callback was given.
\<close>

definition AsyncResult_get ::
  "callback \<Rightarrow> real option \<Rightarrow> 'a async_result \<times> 'a runtime
     \<Rightarrow> (error + 'a pyval option) \<times> 'a async_result \<times> 'a runtime" where
  "AsyncResult_get callback timeout s =
     (let r = fst s; rt = snd s in
      if ar_ready r then
        (if \<not> truthy callback then (Inr (Some (ar_value r)), r, rt)
         else case next_tick callback [ar_value r] rt of
                Inl e \<Rightarrow> (Inl e, r, rt)
              | Inr rt1 \<Rightarrow> (Inr None, r, rt1))
      else
        (if \<not> truthy callback then (Inl NotReady, r, rt)
         else case Waiter_init timeout [PyNone] callback rt of
                Inl e \<Rightarrow> (Inl e, r, rt)
              | Inr (waiter, rt1) \<Rightarrow>
                  (Inr None, r\<lparr>ar_waiters := ar_waiters r @ [waiter]\<rparr>, rt1)))"

section \<open>\<open>Condition\<close> and \<open>Event\<close>\<close>

record condition =
  cond_waiters :: "nat list"

definition consume_timed_out_waiters :: "'a runtime \<Rightarrow> nat list \<Rightarrow> nat list" where
  "consume_timed_out_waiters rt ws = dropWhile (expired rt) ws"

text \<open>\<open>Condition.wait\<close>: the callback goes into a \<open>_Waiter\<close> whatever it is.\<close>

definition Condition_wait ::
  "callback \<Rightarrow> real option \<Rightarrow> condition \<times> 'a runtime
     \<Rightarrow> (error + unit) \<times> condition \<times> 'a runtime" where
  "Condition_wait callback timeout s =
     (let c = fst s; rt = snd s in
      case Waiter_init timeout [] callback rt of
        Inl e \<Rightarrow> (Inl e, c, rt)
      | Inr (waiter, rt1) \<Rightarrow> (Inr (), c\<lparr>cond_waiters := cond_waiters c @ [waiter]\<rparr>, rt1))"

text \<open>
  The first loop of \<open>Condition.notify\<close>: while \<open>n\<close> is not zero and waiters are left, pop
  one, count down and prune. It yields the deque left and the waiters to run.
\<close>

function notify_loop ::
  "'a runtime \<Rightarrow> int \<Rightarrow> nat list \<Rightarrow> nat list \<Rightarrow> nat list \<times> nat list" where
  "notify_loop rt n ws acc =
     (if n \<noteq> 0 \<and> ws \<noteq> []
      then notify_loop rt (n - 1) (consume_timed_out_waiters rt (tl ws)) (acc @ [hd ws])
      else (ws, acc))"
  by pat_completeness auto
termination
  by (relation "measure (\<lambda>(rt, n, ws, acc). length ws)")
     (auto simp: consume_timed_out_waiters_def intro: le_less_trans [OF length_dropWhile_le])

declare notify_loop.simps [simp del]

definition Condition_notify ::
  "int \<Rightarrow> condition \<times> 'a runtime \<Rightarrow> condition \<times> 'a runtime" where
  "Condition_notify n s =
     (let c = fst s; rt = snd s;
          r = notify_loop rt n (consume_timed_out_waiters rt (cond_waiters c)) []
      in (c\<lparr>cond_waiters := fst r\<rparr>, fold (\<lambda>waiter. Waiter_run waiter []) (snd r) rt))"

definition Condition_notify_all :: "condition \<times> 'a runtime \<Rightarrow> condition \<times> 'a runtime" where
  "Condition_notify_all s = Condition_notify (int (length (cond_waiters (fst s)))) s"

record event =
  ev_condition :: condition
  ev_flag :: bool

definition Event_init :: event where
  "Event_init = \<lparr>ev_condition = \<lparr>cond_waiters = []\<rparr>, ev_flag = False\<rparr>"

definition is_set :: "event \<Rightarrow> bool" where
  "is_set e = ev_flag e"

definition Event_set :: "event \<times> 'a runtime \<Rightarrow> event \<times> 'a runtime" where
  "Event_set s =
     (let e = (fst s)\<lparr>ev_flag := True\<rparr>;
          r = Condition_notify_all (ev_condition e, snd s)
      in (e\<lparr>ev_condition := fst r\<rparr>, snd r))"

definition Event_clear :: "event \<Rightarrow> event" where
  "Event_clear e = e\<lparr>ev_flag := False\<rparr>"

definition Event_wait ::
  "callback \<Rightarrow> real option \<Rightarrow> event \<times> 'a runtime
     \<Rightarrow> (error + unit) \<times> event \<times> 'a runtime" where
  "Event_wait callback timeout s =
     (let e = fst s; rt = snd s in
      if ev_flag e then
        (case next_tick callback [] rt of
           Inl err \<Rightarrow> (Inl err, e, rt)
         | Inr rt1 \<Rightarrow> (Inr (), e, rt1))
      else
        (case Condition_wait callback timeout (ev_condition e, rt) of
           (Inl err, c, rt1) \<Rightarrow> (Inl err, e\<lparr>ev_condition := c\<rparr>, rt1)
         | (Inr u, c, rt1) \<Rightarrow> (Inr (), e\<lparr>ev_condition := c\<rparr>, rt1)))"

section \<open>\<open>Semaphore\<close> and \<open>BoundedSemaphore\<close>\<close>

text \<open>
  A semaphore is a queue of \<open>None\<close> tokens (the one value of its type, \<open>()\<close> here) and
  an event. \<open>BoundedSemaphore\<close> adds \<open>_initial_value\<close>.
\<close>

record semaphore =
  sem_q :: "unit queue_obj"
  sem_unlocked :: event

record bounded_semaphore = semaphore +
  initial_value :: int

text \<open>The loop \<open>for i in range(value): self.q.put(None)\<close>.\<close>

primrec put_tokens ::
  "nat \<Rightarrow> unit queue_obj \<times> unit runtime \<Rightarrow> (error + unit) \<times> unit queue_obj \<times> unit runtime" where
  "put_tokens 0 s = (Inr (), s)"
| "put_tokens (Suc n) s =
     (case Queue_put () Falsy None s of
        (Inl e, s1) \<Rightarrow> (Inl e, s1)
      | (Inr u, s1) \<Rightarrow> put_tokens n s1)"

definition Semaphore_init :: "int \<Rightarrow> unit runtime \<Rightarrow> error + (semaphore \<times> unit runtime)" where
  "Semaphore_init v rt =
     (if v < 0 then Inl ValueError
      else case Queue_init Queue None of
        Inl e \<Rightarrow> Inl e
      | Inr q \<Rightarrow>
          (case put_tokens (nat v) (q, rt) of
             (Inl e, s1) \<Rightarrow> Inl e
           | (Inr u, q1, rt1) \<Rightarrow>
               (let r = (if v \<noteq> 0 then Event_set (Event_init, rt1) else (Event_init, rt1))
                in Inr (\<lparr>sem_q = q1, sem_unlocked = fst r\<rparr>, snd r))))"

definition counter :: "'z semaphore_scheme \<Rightarrow> nat" where
  "counter s = qsize (sem_q s)"

definition locked :: "'z semaphore_scheme \<Rightarrow> bool" where
  "locked s = empty (sem_q s)"

text \<open>\<open>Semaphore.release\<close>: put a token, then set the event.\<close>

definition Semaphore_release ::
  "'z semaphore_scheme \<times> unit runtime
     \<Rightarrow> (error + unit) \<times> 'z semaphore_scheme \<times> unit runtime" where
  "Semaphore_release s =
     (case Queue_put () Falsy None (sem_q (fst s), snd s) of
        (Inl e, q1, rt1) \<Rightarrow> (Inl e, (fst s)\<lparr>sem_q := q1\<rparr>, rt1)
      | (Inr u, q1, rt1) \<Rightarrow>
          (let r = Event_set (sem_unlocked (fst s), rt1)
           in (Inr (), (fst s)\<lparr>sem_q := q1, sem_unlocked := fst r\<rparr>, snd r)))"

definition Semaphore_wait ::
  "callback \<Rightarrow> real option \<Rightarrow> 'z semaphore_scheme \<times> unit runtime
     \<Rightarrow> (error + unit) \<times> 'z semaphore_scheme \<times> unit runtime" where
  "Semaphore_wait callback timeout s =
     (case Event_wait callback timeout (sem_unlocked (fst s), snd s) of
        (r, e1, rt1) \<Rightarrow> (r, (fst s)\<lparr>sem_unlocked := e1\<rparr>, rt1))"

text \<open>
  \<open>Semaphore.acquire\<close>: with a callback it returns nothing (\<open>None\<close>); without one it
  returns \<open>True\<close>, or \<open>False\<close> when \<open>q.get()\<close> raises \<open>Empty\<close>.
\<close>

definition Semaphore_acquire ::
  "callback \<Rightarrow> real option \<Rightarrow> 'z semaphore_scheme \<times> unit runtime
     \<Rightarrow> (error + bool option) \<times> 'z semaphore_scheme \<times> unit runtime" where
  "Semaphore_acquire callback timeout s =
     (if truthy callback then
        (case check_callback callback of
           Inl e \<Rightarrow> (Inl e, s)
         | Inr f \<Rightarrow>
             (case Queue_get (Callable (AcquireLambda f)) timeout (sem_q (fst s), snd s) of
                (Inl e, q1, rt1) \<Rightarrow> (Inl e, (fst s)\<lparr>sem_q := q1\<rparr>, rt1)
              | (Inr x, q1, rt1) \<Rightarrow> (Inr None, (fst s)\<lparr>sem_q := q1\<rparr>, rt1)))
      else
        (case Queue_get Falsy None (sem_q (fst s), snd s) of
           (Inl e, q1, rt1) \<Rightarrow>
             (if e = Empty then (Inr (Some False), (fst s)\<lparr>sem_q := q1\<rparr>, rt1)
              else (Inl e, (fst s)\<lparr>sem_q := q1\<rparr>, rt1))
         | (Inr x, q1, rt1) \<Rightarrow> (Inr (Some True), (fst s)\<lparr>sem_q := q1\<rparr>, rt1)))"

definition BoundedSemaphore_init ::
  "int \<Rightarrow> unit runtime \<Rightarrow> error + (bounded_semaphore \<times> unit runtime)" where
  "BoundedSemaphore_init v rt =
     (case Semaphore_init v rt of
        Inl e \<Rightarrow> Inl e
      | Inr (s, rt1) \<Rightarrow>
          Inr (\<lparr>sem_q = sem_q s, sem_unlocked = sem_unlocked s, initial_value = v\<rparr>, rt1))"

definition BoundedSemaphore_release ::
  "bounded_semaphore \<times> unit runtime \<Rightarrow> (error + unit) \<times> bounded_semaphore \<times> unit runtime" where
  "BoundedSemaphore_release s =
     (if int (counter (fst s)) \<ge> initial_value (fst s) then (Inl ValueError, s)
      else Semaphore_release s)"

section \<open>\<open>JoinableQueue.join\<close>\<close>

text \<open>
  A joinable queue is a queue with a count of unfinished tasks and the event
  \<open>_finished\<close>. Of its methods only \<open>join\<close> is modelled here.
\<close>

record 'a joinable_queue = "'a queue_obj" +
  unfinished_tasks :: int
  finished :: event

definition JoinableQueue_join ::
  "callback \<Rightarrow> real option \<Rightarrow> 'a joinable_queue \<times> 'b runtime
     \<Rightarrow> (error + unit) \<times> 'a joinable_queue \<times> 'b runtime" where
  "JoinableQueue_join callback timeout s =
     (let jq = fst s; rt = snd s in
      if unfinished_tasks jq = 0 then
        (case next_tick callback [] rt of
           Inl e \<Rightarrow> (Inl e, jq, rt)
         | Inr rt1 \<Rightarrow> (Inr (), jq, rt1))
      else
        (case Event_wait callback timeout (finished jq, rt) of
           (r, e1, rt1) \<Rightarrow> (r, jq\<lparr>finished := e1\<rparr>, rt1)))"

section \<open>Reachable states, contracts and scenarios\<close>

text \<open>
  What the queue needs of \<open>heappush\<close> and \<open>heappop\<close> to keep count of its items: a push
  adds one item, a pop of a heap that is not empty removes one.
\<close>

definition heap_sizes ::
  "('a list \<Rightarrow> 'a \<Rightarrow> 'a list) \<Rightarrow> ('a list \<Rightarrow> ('a \<times> 'a list) option) \<Rightarrow> bool" where
  "heap_sizes heappush heappop =
     ((\<forall>h x. length (heappush h x) = Suc (length h)) \<and>
      (\<forall>h. h \<noteq> [] \<longrightarrow> (\<exists>x r. heappop h = Some (x, r) \<and> Suc (length r) = length h)))"

fun storage_ok :: "'a qclass \<Rightarrow> bool" where
  "storage_ok Queue = True"
| "storage_ok (PriorityQueue heappush heappop) = heap_sizes heappush heappop"
| "storage_ok LifoQueue = True"

text \<open>
  The contract of a min-heap for \<open>heappush\<close> and \<open>heappop\<close>, with \<open>I\<close> the shape the
  functions keep (for \<open>heapq\<close>: the heap order of the list): both keep the items, and a
  pop yields a least item.
\<close>

definition heapq_contract ::
  "('a::linorder list \<Rightarrow> bool) \<Rightarrow> ('a list \<Rightarrow> 'a \<Rightarrow> 'a list)
     \<Rightarrow> ('a list \<Rightarrow> ('a \<times> 'a list) option) \<Rightarrow> bool" where
  "heapq_contract I heappush heappop =
     (I [] \<and>
      (\<forall>h x. I h \<longrightarrow> I (heappush h x) \<and> mset (heappush h x) = add_mset x (mset h)) \<and>
      (\<forall>h. I h \<longrightarrow> h \<noteq> [] \<longrightarrow>
         (\<exists>x r. heappop h = Some (x, r) \<and> I r \<and> mset h = add_mset x (mset r) \<and>
                (\<forall>y \<in> set h. x \<le> y))))"

text \<open>A heap kept as a sorted list: an instance of the contract.\<close>

definition sorted_push :: "'a::linorder list \<Rightarrow> 'a \<Rightarrow> 'a list" where
  "sorted_push h x = insort x h"

definition sorted_pop :: "'a list \<Rightarrow> ('a \<times> 'a list) option" where
  "sorted_pop h = (case h of [] \<Rightarrow> None | x # r \<Rightarrow> Some (x, r))"

text \<open>
  The states a queue of class \<open>c\<close> and bound \<open>m\<close> reaches from its creation by calls of
  \<open>put\<close> and \<open>get\<close> (whatever their arguments, whether they return or raise), timers that
  fire and scheduler turns.
\<close>

inductive reachable :: "'a qclass \<Rightarrow> int option \<Rightarrow> 'a queue_obj \<times> 'a runtime \<Rightarrow> bool"
  for c :: "'a qclass" and m :: "int option" where
  created: "Queue_init c m = Inr q \<Longrightarrow> reachable c m (q, new_loop)"
| after_put: "reachable c m s \<Longrightarrow> reachable c m (snd (Queue_put item callback timeout s))"
| after_get: "reachable c m s \<Longrightarrow> reachable c m (snd (Queue_get callback timeout s))"
| after_timeout: "reachable c m (q, rt) \<Longrightarrow> reachable c m (q, fire_timeout i rt)"
| after_turn: "reachable c m (q, rt) \<Longrightarrow> reachable c m (q, run_turn rt)"

text \<open>The same for a \<open>BoundedSemaphore(v)\<close> and its operations.\<close>

inductive bs_reachable :: "int \<Rightarrow> bounded_semaphore \<times> unit runtime \<Rightarrow> bool"
  for v :: int where
  bs_created: "BoundedSemaphore_init v new_loop = Inr s \<Longrightarrow> bs_reachable v s"
| bs_acquire: "bs_reachable v s \<Longrightarrow> bs_reachable v (snd (Semaphore_acquire callback timeout s))"
| bs_release: "bs_reachable v s \<Longrightarrow> bs_reachable v (snd (BoundedSemaphore_release s))"
| bs_wait: "bs_reachable v s \<Longrightarrow> bs_reachable v (snd (Semaphore_wait callback timeout s))"
| bs_timeout: "bs_reachable v (b, rt) \<Longrightarrow> bs_reachable v (b, fire_timeout i rt)"
| bs_turn: "bs_reachable v (b, rt) \<Longrightarrow> bs_reachable v (b, run_turn rt)"

text \<open>
  A round trip: the items of \<open>xs\<close> are put, one non-blocking \<open>put\<close> each, into a new
  unbounded queue of class \<open>c\<close>, which is then drained by as many non-blocking \<open>get\<close>s.
  The result is the list of the items in the order the \<open>get\<close>s returned them.
\<close>

fun put_all ::
  "'a list \<Rightarrow> 'a queue_obj \<times> 'a runtime \<Rightarrow> error + 'a queue_obj \<times> 'a runtime" where
  "put_all [] s = Inr s"
| "put_all (x # xs) s =
     (case Queue_put x Falsy None s of
        (Inl e, s1) \<Rightarrow> Inl e
      | (Inr u, s1) \<Rightarrow> put_all xs s1)"

fun drain :: "nat \<Rightarrow> 'a queue_obj \<times> 'a runtime \<Rightarrow> error + 'a list" where
  "drain 0 s = Inr []"
| "drain (Suc n) s =
     (case Queue_get Falsy None s of
        (Inl e, s1) \<Rightarrow> Inl e
      | (Inr r, s1) \<Rightarrow>
          (case drain n s1 of
             Inl e \<Rightarrow> Inl e
           | Inr ys \<Rightarrow> Inr (case r of None \<Rightarrow> ys | Some x \<Rightarrow> x # ys)))"

definition round_trip :: "'a qclass \<Rightarrow> 'a list \<Rightarrow> error + 'a list" where
  "round_trip c xs =
     (case Queue_init c None of
        Inl e \<Rightarrow> Inl e
      | Inr q \<Rightarrow>
          (case put_all xs (q, new_loop) of
             Inl e \<Rightarrow> Inl e
           | Inr s \<Rightarrow> drain (length xs) s))"

text \<open>
  The same round trip drained by \<open>get\<close>s with a callback \<open>l\<close>: the result is the list of
  the calls of \<open>l\<close>, in order.
\<close>

fun drain_cb :: "nat \<Rightarrow> nat \<Rightarrow> 'a queue_obj \<times> 'a runtime \<Rightarrow> error + 'a queue_obj \<times> 'a runtime" where
  "drain_cb l 0 s = Inr s"
| "drain_cb l (Suc n) s =
     (case Queue_get (Callable (User l)) None s of
        (Inl e, s1) \<Rightarrow> Inl e
      | (Inr r, s1) \<Rightarrow> drain_cb l n s1)"

definition round_trip_cb :: "'a qclass \<Rightarrow> nat \<Rightarrow> 'a list \<Rightarrow> error + (nat \<times> 'a pyval list) list" where
  "round_trip_cb c l xs =
     (case Queue_init c None of
        Inl e \<Rightarrow> Inl e
      | Inr q \<Rightarrow>
          (case put_all xs (q, new_loop) of
             Inl e \<Rightarrow> Inl e
           | Inr s \<Rightarrow>
               (case drain_cb l (length xs) s of
                  Inl e \<Rightarrow> Inl e
                | Inr s1 \<Rightarrow> Inr (trace (snd s1)))))"

text \<open>
  The invariant of a queue: its class keeps count, waiting getters mean an empty storage,
  waiting putters mean a storage of exactly \<open>maxsize\<close> items, and a bounded storage holds
  at most \<open>maxsize\<close> items.
\<close>

definition queue_inv :: "'a queue_obj \<Rightarrow> bool" where
  "queue_inv q =
     (storage_ok (cls q) \<and>
      (getters q \<noteq> [] \<longrightarrow> queue q = []) \<and>
      (putters q \<noteq> [] \<longrightarrow> maxsize q = Some (int (length (queue q)))) \<and>
      (\<forall>n. maxsize q = Some n \<longrightarrow> int (length (queue q)) \<le> n))"

text \<open>
  What a call of a callable records at once: the calls of user callbacks it makes before
  it returns (\<open>_callback\<close> of \<open>Queue.put\<close> only schedules). \<open>waiter_calls\<close> is the same
  for a run of waiter \<open>w\<close>, which does nothing once the waiter has expired.
\<close>

fun calls :: "fn \<Rightarrow> 'a pyval list \<Rightarrow> (nat \<times> 'a pyval list) list" where
  "calls (User l) args = [(l, args)]"
| "calls (PutCallback f) args = []"
| "calls (AcquireLambda f) [v] = calls f [PyBool (v \<noteq> EmptyClass)]"
| "calls (AcquireLambda f) args = []"

definition waiter_calls :: "'a runtime \<Rightarrow> 'a pyval list \<Rightarrow> nat \<Rightarrow> (nat \<times> 'a pyval list) list" where
  "waiter_calls rt args w = (case waiter_cb rt w of None \<Rightarrow> [] | Some f \<Rightarrow> calls f args)"

text \<open>The invariant of a bounded semaphore: its counter is at most its initial value.\<close>

definition bs_inv :: "bounded_semaphore \<Rightarrow> bool" where
  "bs_inv b = (storage_ok (cls (sem_q b)) \<and> int (counter b) \<le> initial_value b)"

section \<open>The queue invariant\<close>

lemma q_put_length: "storage_ok c \<Longrightarrow> length (q_put c x s) = Suc (length s)"
  by (cases c) (auto simp: heap_sizes_def)

lemma q_get_nonempty:
  "storage_ok c \<Longrightarrow> s \<noteq> [] \<Longrightarrow> \<exists>x r. q_get c s = Some (x, r) \<and> Suc (length r) = length s"
  by (cases c) (auto simp: heap_sizes_def split: list.splits)

lemma q_get_after_put:
  "storage_ok c \<Longrightarrow> \<exists>y r. q_get c (q_put c x s) = Some (y, r) \<and> length r = length s"
  using q_get_nonempty [of c "q_put c x s"] q_put_length [of c x s]
  by (metis Suc_inject length_0_conv nat.distinct(1))

lemma sorted_heap_sizes: "heap_sizes sorted_push sorted_pop"
  by (auto simp: heap_sizes_def sorted_push_def sorted_pop_def split: list.splits)

lemma Queue_put_frame:
  "cls (fst (snd (Queue_put item callback timeout s))) = cls (fst s) \<and>
   maxsize (fst (snd (Queue_put item callback timeout s))) = maxsize (fst s)"
  unfolding Queue_put_def Let_def consume_expired_getters_def
  by (simp split: sum.splits prod.splits option.splits)

lemma Queue_get_frame:
  "cls (fst (snd (Queue_get callback timeout s))) = cls (fst s) \<and>
   maxsize (fst (snd (Queue_get callback timeout s))) = maxsize (fst s)"
  unfolding Queue_get_def Let_def consume_expired_putters_def
  by (simp split: sum.splits prod.splits option.splits)

lemma Queue_put_shape:
  fixes s :: "'a queue_obj \<times> 'a runtime" and item :: 'a and callback :: callback
    and timeout :: "real option"
  assumes ok: "storage_ok (cls (fst s))"
  defines "q \<equiv> consume_expired_getters (snd s) (fst s)"
  defines "q' \<equiv> fst (snd (Queue_put item callback timeout s))"
  obtains (unchanged) "q' = q"
  | (handed) "getters q \<noteq> []" and "queue q = []" and "q' = q\<lparr>getters := tl (getters q)\<rparr>"
  | (parked) w where "getters q = []" and "maxsize q = Some (int (qsize q))"
      and "q' = q\<lparr>putters := putters q @ [(item, w)]\<rparr>"
  | (stored) "getters q = []" and "maxsize q \<noteq> Some (int (qsize q))"
      and "q' = q\<lparr>queue := q_put (cls q) item (queue q)\<rparr>"
proof -
  define rt where "rt = snd s"
  have qd: "q = consume_expired_getters rt (fst s)" by (simp add: q_def rt_def)
  have okq: "storage_ok (cls q)" using ok by (simp add: qd consume_expired_getters_def)
  show thesis
  proof (cases "getters q \<noteq> []")
    case True
    note g = this
    show thesis
    proof (cases "queue q = []")
      case True
      obtain y r where yr: "q_get (cls q) (q_put (cls q) item []) = Some (y, r)"
        and "length r = length ([] :: 'a list)"
        using q_get_after_put [OF okq] by blast
      then have r: "r = []" by simp
      have "q' = q\<lparr>getters := tl (getters q)\<rparr>"
        using g True yr r
        unfolding q'_def Queue_put_def Let_def rt_def [symmetric] qd [symmetric]
        by (cases "next_tick callback [PyBool True] (Waiter_run (hd (getters q)) [Obj y] rt) :: error + 'a runtime")
           (simp_all)
      then show thesis using g True handed by blast
    next
      case False
      then have "q' = q"
        using g unfolding q'_def Queue_put_def Let_def rt_def [symmetric] qd [symmetric]
        by simp
      then show thesis using unchanged by blast
    qed
  next
    case False
    note ng = this
    show thesis
    proof (cases "maxsize q = Some (int (qsize q))")
      case True
      have "q' = q \<or> (\<exists>w. q' = q\<lparr>putters := putters q @ [(item, w)]\<rparr>)"
        using True ng
        unfolding q'_def Queue_put_def Let_def rt_def [symmetric] qd [symmetric]
        by (auto split: sum.splits prod.splits)
      then show thesis using unchanged parked True ng by blast
    next
      case False
      have "q' = q\<lparr>queue := q_put (cls q) item (queue q)\<rparr>"
        using False ng
        unfolding q'_def Queue_put_def Let_def rt_def [symmetric] qd [symmetric]
        by (simp split: sum.splits prod.splits)
      then show thesis using stored False ng by blast
    qed
  qed
qed

lemma Queue_get_shape:
  fixes s :: "'a queue_obj \<times> 'a runtime" and callback :: callback
    and timeout :: "real option"
  assumes ok: "storage_ok (cls (fst s))"
  defines "q \<equiv> consume_expired_putters (snd s) (fst s)"
  defines "q' \<equiv> fst (snd (Queue_get callback timeout s))"
  obtains (unchanged) "q' = q"
  | (released) r where "putters q \<noteq> []" and "full q" and "length r = length (queue q)"
      and "q' = q\<lparr>putters := tl (putters q), queue := r\<rparr>"
  | (taken) r where "putters q = []" and "Suc (length r) = length (queue q)"
      and "q' = q\<lparr>queue := r\<rparr>"
  | (parked) w where "putters q = []" and "queue q = []"
      and "q' = q\<lparr>getters := getters q @ [w]\<rparr>"
proof -
  define rt where "rt = snd s"
  have qd: "q = consume_expired_putters rt (fst s)" by (simp add: q_def rt_def)
  have okq: "storage_ok (cls q)" using ok by (simp add: qd consume_expired_putters_def)
  show thesis
  proof (cases "putters q \<noteq> []")
    case True
    note p = this
    show thesis
    proof (cases "full q")
      case True
      obtain y r where yr: "q_get (cls q) (q_put (cls q) (fst (hd (putters q))) (queue q)) = Some (y, r)"
        and len: "length r = length (queue q)"
        using q_get_after_put [OF okq] by blast
      have "q' = q\<lparr>putters := tl (putters q), queue := r\<rparr>"
        using p True yr
        unfolding q'_def Queue_get_def Let_def rt_def [symmetric] qd [symmetric]
        by simp
      then show thesis using released p True len by blast
    next
      case False
      then have "q' = q"
        using p unfolding q'_def Queue_get_def Let_def rt_def [symmetric] qd [symmetric]
        by simp
      then show thesis using unchanged by blast
    qed
  next
    case False
    note np = this
    show thesis
    proof (cases "qsize q \<noteq> 0")
      case True
      then have "queue q \<noteq> []" by (simp add: qsize_def)
      then obtain x r where xr: "q_get (cls q) (queue q) = Some (x, r)"
        and len: "Suc (length r) = length (queue q)"
        using q_get_nonempty [OF okq] by blast
      have "q' = q\<lparr>queue := r\<rparr>"
        using True np xr
        unfolding q'_def Queue_get_def Let_def rt_def [symmetric] qd [symmetric]
        by simp
      then show thesis using taken np len by blast
    next
      case False
      then have e: "queue q = []" by (simp add: qsize_def)
      have "q' = q \<or> (\<exists>w. q' = q\<lparr>getters := getters q @ [w]\<rparr>)"
        using False np
        unfolding q'_def Queue_get_def Let_def rt_def [symmetric] qd [symmetric]
        by (auto split: sum.splits prod.splits)
      then show thesis using unchanged parked np e by blast
    qed
  qed
qed

lemma consume_expired_getters_inv:
  "queue_inv q \<Longrightarrow> queue_inv (consume_expired_getters rt q)"
  unfolding queue_inv_def consume_expired_getters_def by auto

lemma consume_expired_putters_inv:
  "queue_inv q \<Longrightarrow> queue_inv (consume_expired_putters rt q)"
  unfolding queue_inv_def consume_expired_putters_def by auto

lemma Queue_put_inv:
  assumes inv: "queue_inv (fst s)"
  shows "queue_inv (fst (snd (Queue_put item callback timeout s)))"
proof -
  have ok: "storage_ok (cls (fst s))" using inv by (simp add: queue_inv_def)
  have invq: "queue_inv (consume_expired_getters (snd s) (fst s))"
    using inv by (rule consume_expired_getters_inv)
  show ?thesis
    using invq
    by (cases rule: Queue_put_shape [OF ok, of item callback timeout])
       (auto simp: queue_inv_def qsize_def q_put_length)
qed

lemma Queue_get_inv:
  assumes inv: "queue_inv (fst s)"
  shows "queue_inv (fst (snd (Queue_get callback timeout s)))"
proof -
  have ok: "storage_ok (cls (fst s))" using inv by (simp add: queue_inv_def)
  have invq: "queue_inv (consume_expired_putters (snd s) (fst s))"
    using inv by (rule consume_expired_putters_inv)
  show ?thesis
    using invq
    by (cases rule: Queue_get_shape [OF ok, of callback timeout])
       (auto simp: queue_inv_def qsize_def)
qed

lemma Queue_put_length:
  assumes ok: "storage_ok (cls (fst s))"
  shows "length (queue (fst (snd (Queue_put item callback timeout s)))) \<le> Suc (length (queue (fst s)))"
  by (cases rule: Queue_put_shape [OF ok, of item callback timeout])
     (auto simp: consume_expired_getters_def q_put_length ok)

lemma Queue_get_length:
  assumes ok: "storage_ok (cls (fst s))"
  shows "length (queue (fst (snd (Queue_get callback timeout s)))) \<le> length (queue (fst s))"
  by (cases rule: Queue_get_shape [OF ok, of callback timeout])
     (auto simp: consume_expired_putters_def)

lemma Queue_init_inv:
  "storage_ok c \<Longrightarrow> Queue_init c m = Inr q \<Longrightarrow> queue_inv q \<and> cls q = c \<and> maxsize q = m"
  by (auto simp: Queue_init_def queue_inv_def split: if_splits)

lemma reachable_inv:
  assumes "storage_ok c" and "reachable c m s"
  shows "queue_inv (fst s) \<and> cls (fst s) = c \<and> maxsize (fst s) = m"
  using assms(2)
proof (induction rule: reachable.induct)
  case (created q)
  then show ?case using Queue_init_inv [OF assms(1)] by simp
next
  case (after_put s item callback timeout)
  then show ?case using Queue_put_inv Queue_put_frame by metis
next
  case (after_get s callback timeout)
  then show ?case using Queue_get_inv Queue_get_frame by metis
next
  case (after_timeout q rt i)
  then show ?case by simp
next
  case (after_turn q rt)
  then show ?case by simp
qed

text \<open>
  Claim C1. For a queue of any bound and any class whose storage keeps count, in every
  state reached from its creation by \<open>put\<close> and \<open>get\<close> calls, timers that fire and
  scheduler turns: waiting getters mean an empty storage, waiting putters mean that
  \<open>qsize()\<close> equals \<open>maxsize\<close>, and \<open>qsize()\<close> never exceeds a finite \<open>maxsize\<close>.
\<close>

theorem queue_invariants:
  assumes "storage_ok c" and "reachable c m (q, rt)"
  shows "(getters q \<noteq> [] \<longrightarrow> queue q = []) \<and>
         (putters q \<noteq> [] \<longrightarrow> maxsize q = Some (int (qsize q))) \<and>
         (\<forall>n. maxsize q = Some n \<longrightarrow> int (qsize q) \<le> n) \<and>
         cls q = c \<and> maxsize q = m"
  using reachable_inv [OF assms] by (auto simp: queue_inv_def qsize_def)

theorem queue_invariants_witness:
  "storage_ok (PriorityQueue sorted_push sorted_pop :: int qclass) \<and>
   reachable (PriorityQueue sorted_push sorted_pop) (Some 1)
     (\<lparr>cls = PriorityQueue sorted_push sorted_pop, maxsize = Some 1, getters = [],
        putters = [(2::int, 0)], queue = [1]\<rparr>,
      \<lparr>waiter_callback = [Some (PutCallback (User 0))], pending = [], timers = [],
        trace = [], logged = []\<rparr>) \<and>
   maxsize \<lparr>cls = PriorityQueue sorted_push sorted_pop, maxsize = Some 1, getters = [],
        putters = [(2::int, 0)], queue = [1]\<rparr> = Some (int (qsize \<lparr>cls = PriorityQueue sorted_push sorted_pop, maxsize = Some 1, getters = [],
        putters = [(2::int, 0)], queue = [1]\<rparr>))"
proof -
  let ?c = "PriorityQueue sorted_push sorted_pop :: int qclass"
  let ?q0 = "\<lparr>cls = ?c, maxsize = Some 1, getters = [], putters = [], queue = []\<rparr>"
  have ok: "storage_ok ?c" by (simp add: sorted_heap_sizes)
  have "reachable ?c (Some 1)
          (snd (Queue_put 2 (Callable (User 0)) None (snd (Queue_put 1 Falsy None (?q0, new_loop)))))"
    by (intro reachable.intros) (simp add: Queue_init_def)
  then have r: "reachable ?c (Some 1)
     (\<lparr>cls = ?c, maxsize = Some 1, getters = [], putters = [(2::int, 0)], queue = [1]\<rparr>,
      \<lparr>waiter_callback = [Some (PutCallback (User 0))], pending = [], timers = [],
        trace = [], logged = []\<rparr>)"
    by (simp add: Queue_put_def consume_expired_getters_def qsize_def next_tick_def
        check_callback_def Waiter_init_def new_loop_def sorted_push_def)
  from queue_invariants [OF ok r] ok r show ?thesis by simp
qed

section \<open>Scenarios and further properties of the queue\<close>

text \<open>The definitions a concrete run unfolds.\<close>

lemmas eval_defs =
  Queue_init_def Queue_put_def Queue_get_def consume_expired_getters_def
  consume_expired_putters_def qsize_def empty_def full_def next_tick_def check_callback_def
  run_callback_def Waiter_init_def Waiter_run_def waiter_cb_def expired_def add_callback_def
  add_timeout_def new_loop_def run_turn_def fire_timeout_def

text \<open>
  Claim C2. \<open>q = Queue(maxsize=1)\<close>, \<open>q.put(1)\<close>; then a getter \<open>g\<close> and a putter
  \<open>q.put(2, p)\<close> arrive, in either order. In both orders \<open>g\<close> receives \<open>1\<close> first, within
  the \<open>get\<close> call itself; \<open>p\<close> has not run when the calls return and receives \<open>True\<close> on
  the following scheduler turn; a second turn runs nothing more, and a non-blocking
  \<open>q.get()\<close> then returns \<open>2\<close>. When the putter comes first it is parked (the queue is
  full) and the getter's arrival releases it.
\<close>

theorem full_queue_alternation:
  "\<exists>q0 s1 s2 s3 s2' s3' :: int queue_obj \<times> int runtime.
     Queue_init Queue (Some 1) = Inr (fst q0) \<and> snd q0 = new_loop \<and>
     Queue_put 1 Falsy None q0 = (Inr (), s1) \<and>
     Queue_get (Callable (User g)) None s1 = (Inr None, s2) \<and>
     Queue_put 2 (Callable (User p)) None s2 = (Inr (), s3) \<and>
     trace (snd s3) = [(g, [Obj 1])] \<and>
     trace (run_turn (snd s3)) = [(g, [Obj 1]), (p, [PyBool True])] \<and>
     trace (run_turn (run_turn (snd s3))) = [(g, [Obj 1]), (p, [PyBool True])] \<and>
     fst (Queue_get Falsy None (fst s3, run_turn (run_turn (snd s3)))) = Inr (Some 2) \<and>
     Queue_put 2 (Callable (User p)) None s1 = (Inr (), s2') \<and>
     putters (fst s2') \<noteq> [] \<and>
     Queue_get (Callable (User g)) None s2' = (Inr None, s3') \<and>
     trace (snd s3') = [(g, [Obj 1])] \<and>
     trace (run_turn (snd s3')) = [(g, [Obj 1]), (p, [PyBool True])] \<and>
     trace (run_turn (run_turn (snd s3'))) = [(g, [Obj 1]), (p, [PyBool True])] \<and>
     fst (Queue_get Falsy None (fst s3', run_turn (run_turn (snd s3')))) = Inr (Some 2)"
  apply (rule exI [of _ "(\<lparr>cls = Queue, maxsize = Some 1, getters = [], putters = [], queue = []\<rparr>, new_loop)"])
  apply (simp add: eval_defs)
  done

text \<open>
  Claim C3, as stated, fails: a bounded queue parks putters exactly when its storage is
  full, so with \<open>maxsize = 1\<close>, after \<open>q.put(1)\<close> and \<open>q.put(2, p)\<close>, the storage and the
  putters are both non-empty.
\<close>

theorem storage_and_putters_counterexample:
  "\<not> (\<forall>s :: int queue_obj \<times> int runtime.
        reachable Queue (Some 1) s \<longrightarrow> \<not> (queue (fst s) \<noteq> [] \<and> putters (fst s) \<noteq> []))"
proof -
  let ?q0 = "\<lparr>cls = Queue, maxsize = Some 1, getters = [], putters = [], queue = []\<rparr> :: int queue_obj"
  let ?s = "snd (Queue_put 2 (Callable (User 0)) None (snd (Queue_put 1 Falsy None (?q0, new_loop))))"
  have r: "reachable Queue (Some 1) ?s"
    by (intro reachable.intros) (simp add: Queue_init_def)
  have "queue (fst ?s) \<noteq> [] \<and> putters (fst ?s) \<noteq> []"
    by (simp add: eval_defs)
  with r show ?thesis by blast
qed

text \<open>
  Claim C3, amended. In every reachable state of a queue, "getters non-empty" and
  "storage non-empty" cannot hold together, and "putters non-empty" and "storage not
  full" (\<open>qsize() \<noteq> maxsize\<close>) cannot hold together; putters and a non-empty storage
  therefore never coexist in a queue of \<open>maxsize = 0\<close>.
\<close>

theorem exclusive_conditions:
  assumes "storage_ok c" and "reachable c m (q, rt)"
  shows "\<not> (getters q \<noteq> [] \<and> queue q \<noteq> []) \<and>
         \<not> (putters q \<noteq> [] \<and> maxsize q \<noteq> Some (int (qsize q))) \<and>
         (maxsize q = Some 0 \<longrightarrow> \<not> (queue q \<noteq> [] \<and> putters q \<noteq> []))"
  using reachable_inv [OF assms] by (auto simp: queue_inv_def qsize_def)

theorem exclusive_conditions_witness:
  "storage_ok (Queue :: int qclass) \<and>
   reachable Queue (Some 1)
     (\<lparr>cls = Queue, maxsize = Some 1, getters = [], putters = [(2::int, 0)], queue = [1]\<rparr>,
      \<lparr>waiter_callback = [Some (PutCallback (User 0))], pending = [], timers = [],
        trace = [], logged = []\<rparr>) \<and>
   \<not> (putters \<lparr>cls = Queue, maxsize = Some 1, getters = [], putters = [(2::int, 0)], queue = [1]\<rparr> \<noteq> [] \<and>
      maxsize \<lparr>cls = Queue, maxsize = Some 1, getters = [], putters = [(2::int, 0)], queue = [1]\<rparr>
        \<noteq> Some (int (qsize \<lparr>cls = Queue, maxsize = Some 1, getters = [], putters = [(2::int, 0)], queue = [1]\<rparr>)))"
proof -
  let ?q0 = "\<lparr>cls = Queue, maxsize = Some 1, getters = [], putters = [], queue = []\<rparr> :: int queue_obj"
  have ok: "storage_ok (Queue :: int qclass)" by simp
  have "reachable Queue (Some 1)
          (snd (Queue_put 2 (Callable (User 0)) None (snd (Queue_put 1 Falsy None (?q0, new_loop)))))"
    by (intro reachable.intros) (simp add: Queue_init_def)
  then have r: "reachable Queue (Some 1)
     (\<lparr>cls = Queue, maxsize = Some 1, getters = [], putters = [(2::int, 0)], queue = [1]\<rparr>,
      \<lparr>waiter_callback = [Some (PutCallback (User 0))], pending = [], timers = [],
        trace = [], logged = []\<rparr>)"
    by (simp add: eval_defs)
  from exclusive_conditions [OF ok r] ok r show ?thesis by simp
qed

section \<open>Semaphores\<close>

lemma notify_loop_Nil: "notify_loop rt n [] acc = ([], acc)"
  by (simp add: notify_loop.simps)

lemma notify_loop_zero: "notify_loop rt 0 ws acc = (ws, acc)"
  by (simp add: notify_loop.simps)

lemmas sem_defs =
  Semaphore_init_def Semaphore_acquire_def Semaphore_release_def Semaphore_wait_def
  BoundedSemaphore_init_def BoundedSemaphore_release_def counter_def locked_def
  Event_init_def Event_set_def Event_wait_def Condition_wait_def Condition_notify_def
  Condition_notify_all_def consume_timed_out_waiters_def

text \<open>
  Claim C7. \<open>s = Semaphore(2)\<close>: two non-blocking \<open>acquire()\<close> calls return \<open>True\<close>; the
  third returns \<open>False\<close>, the \<open>Empty\<close> that the queue's \<open>get()\<close> raises there being
  translated and not raised; after one \<open>release()\<close> a fourth \<open>acquire()\<close> returns \<open>True\<close>,
  and the counter is then \<open>0\<close>.
\<close>

theorem semaphore_accounting:
  "\<exists>s0 s1 s2 s3 s4 s5.
     Semaphore_init 2 new_loop = Inr s0 \<and>
     Semaphore_acquire Falsy None s0 = (Inr (Some True), s1) \<and>
     Semaphore_acquire Falsy None s1 = (Inr (Some True), s2) \<and>
     fst (Queue_get Falsy None (sem_q (fst s2), snd s2)) = Inl Empty \<and>
     Semaphore_acquire Falsy None s2 = (Inr (Some False), s3) \<and>
     Semaphore_release s3 = (Inr (), s4) \<and>
     Semaphore_acquire Falsy None s4 = (Inr (Some True), s5) \<and>
     counter (fst s5) = 0"
  by (simp add: eval_defs sem_defs eval_nat_numeral notify_loop_Nil)

lemma consume_expired_getters_none:
  "getters q = [] \<Longrightarrow> consume_expired_getters rt q = q"
  by (simp add: consume_expired_getters_def)

lemma Queue_put_room:
  assumes "getters q = []" and "maxsize q \<noteq> Some (int (length (queue q)))"
  shows "Queue_put item Falsy timeout (q, rt) =
           (Inr (), q\<lparr>queue := q_put (cls q) item (queue q)\<rparr>, rt)"
  using assms
  by (simp add: Queue_put_def consume_expired_getters_none qsize_def next_tick_def)

lemma put_tokens_fresh:
  "cls q = Queue \<Longrightarrow> maxsize q = None \<Longrightarrow> getters q = [] \<Longrightarrow>
   put_tokens n (q, rt) = (Inr (), q\<lparr>queue := queue q @ replicate n ()\<rparr>, rt)"
proof (induction n arbitrary: q)
  case 0
  then show ?case by simp
next
  case (Suc n)
  have "Queue_put () Falsy None (q, rt) = (Inr (), q\<lparr>queue := queue q @ [()]\<rparr>, rt)"
    using Suc.prems by (simp add: Queue_put_room)
  then show ?case
    using Suc.IH [of "q\<lparr>queue := queue q @ [()]\<rparr>"] Suc.prems
    by (simp add: replicate_app_Cons_same)
qed

lemma Semaphore_init_counter:
  assumes "Semaphore_init v rt = Inr (s, rt1)"
  shows "counter s = nat v \<and> cls (sem_q s) = Queue \<and> maxsize (sem_q s) = None \<and> 0 \<le> v"
  using assms
  by (auto simp: Semaphore_init_def Queue_init_def put_tokens_fresh counter_def qsize_def
      Let_def split: if_splits)

lemma bs_init_inv:
  assumes "BoundedSemaphore_init v rt = Inr (b, rt1)"
  shows "bs_inv b \<and> initial_value b = v"
proof -
  obtain s where s: "Semaphore_init v rt = Inr (s, rt1)"
    and b: "b = \<lparr>sem_q = sem_q s, sem_unlocked = sem_unlocked s, initial_value = v\<rparr>"
    using assms by (auto simp: BoundedSemaphore_init_def split: sum.splits)
  from Semaphore_init_counter [OF s] b show ?thesis
    by (simp add: bs_inv_def counter_def)
qed

lemma Semaphore_acquire_sem_q:
  obtains (same) "fst (snd (Semaphore_acquire callback timeout s)) = fst s"
  | (got) cb t where "fst (snd (Semaphore_acquire callback timeout s)) =
       (fst s)\<lparr>sem_q := fst (snd (Queue_get cb t (sem_q (fst s), snd s)))\<rparr>"
proof (cases "truthy callback")
  case True
  show thesis
  proof (cases "check_callback callback")
    case (Inl e)
    then have "fst (snd (Semaphore_acquire callback timeout s)) = fst s"
      using True by (simp add: Semaphore_acquire_def)
    then show thesis by (rule same)
  next
    case (Inr f)
    obtain r q1 rt1 where g: "Queue_get (Callable (AcquireLambda f)) timeout (sem_q (fst s), snd s) = (r, q1, rt1)"
      by (cases "Queue_get (Callable (AcquireLambda f)) timeout (sem_q (fst s), snd s)")
    have "fst (snd (Semaphore_acquire callback timeout s)) =
       (fst s)\<lparr>sem_q := fst (snd (Queue_get (Callable (AcquireLambda f)) timeout (sem_q (fst s), snd s)))\<rparr>"
      using True Inr g by (cases r) (simp_all add: Semaphore_acquire_def)
    then show thesis by (rule got)
  qed
next
  case False
  obtain r q1 rt1 where g: "Queue_get Falsy None (sem_q (fst s), snd s) = (r, q1, rt1)"
    by (cases "Queue_get Falsy None (sem_q (fst s), snd s)")
  have "fst (snd (Semaphore_acquire callback timeout s)) =
       (fst s)\<lparr>sem_q := fst (snd (Queue_get Falsy None (sem_q (fst s), snd s)))\<rparr>"
    using False g by (cases r) (simp_all add: Semaphore_acquire_def)
  then show thesis by (rule got)
qed

lemma Semaphore_acquire_counter:
  assumes "storage_ok (cls (sem_q (fst s)))"
  shows "counter (fst (snd (Semaphore_acquire callback timeout s))) \<le> counter (fst s) \<and>
         cls (sem_q (fst (snd (Semaphore_acquire callback timeout s)))) = cls (sem_q (fst s)) \<and>
         initial_value (fst (snd (Semaphore_acquire callback timeout s))) = initial_value (fst s)"
proof (cases rule: Semaphore_acquire_sem_q [of callback timeout s])
  case same
  then show ?thesis by simp
next
  case (got cb t)
  have l: "length (queue (fst (snd (Queue_get cb t (sem_q (fst s), snd s))))) \<le> length (queue (sem_q (fst s)))"
    using Queue_get_length [of "(sem_q (fst s), snd s)" cb t] assms by simp
  have f: "cls (fst (snd (Queue_get cb t (sem_q (fst s), snd s)))) = cls (sem_q (fst s))"
    using Queue_get_frame [of cb t "(sem_q (fst s), snd s)"] by simp
  show ?thesis
    using l f got by (simp add: counter_def qsize_def)
qed

lemma Semaphore_release_counter:
  assumes "storage_ok (cls (sem_q (fst s)))"
  shows "counter (fst (snd (Semaphore_release s))) \<le> Suc (counter (fst s)) \<and>
         cls (sem_q (fst (snd (Semaphore_release s)))) = cls (sem_q (fst s)) \<and>
         initial_value (fst (snd (Semaphore_release s))) = initial_value (fst s)"
proof -
  obtain r q1 rt1 where g: "Queue_put () Falsy None (sem_q (fst s), snd s) = (r, q1, rt1)"
    by (cases "Queue_put () Falsy None (sem_q (fst s), snd s)")
  have l: "length (queue q1) \<le> Suc (length (queue (sem_q (fst s))))"
    using Queue_put_length [of "(sem_q (fst s), snd s)" "()" Falsy None] assms g by simp
  have f: "cls q1 = cls (sem_q (fst s))"
    using Queue_put_frame [of "()" Falsy None "(sem_q (fst s), snd s)"] g by simp
  show ?thesis
    using g l f
    by (cases r) (simp_all add: Semaphore_release_def counter_def qsize_def Let_def)
qed

lemma Semaphore_wait_frame:
  "sem_q (fst (snd (Semaphore_wait callback timeout s))) = sem_q (fst s) \<and>
   initial_value (fst (snd (Semaphore_wait callback timeout s))) = initial_value (fst s)"
  by (simp add: Semaphore_wait_def split: prod.splits)

lemma bs_reachable_inv:
  assumes "bs_reachable v s"
  shows "bs_inv (fst s) \<and> initial_value (fst s) = v"
  using assms
proof (induction rule: bs_reachable.induct)
  case (bs_created s)
  then show ?case using bs_init_inv [of v new_loop "fst s" "snd s"] by simp
next
  case (bs_acquire s callback timeout)
  then show ?case
    using Semaphore_acquire_counter [of s callback timeout]
    by (simp add: bs_inv_def)
next
  case (bs_release s)
  then show ?case
    using Semaphore_release_counter [of s]
    by (auto simp: bs_inv_def BoundedSemaphore_release_def)
next
  case (bs_wait s callback timeout)
  then show ?case
    using Semaphore_wait_frame [of callback timeout s]
    by (simp add: bs_inv_def counter_def)
next
  case (bs_timeout b rt i)
  then show ?case by simp
next
  case (bs_turn b rt)
  then show ?case by simp
qed

text \<open>
  Claim C8. \<open>BoundedSemaphore.release\<close> raises \<open>ValueError\<close> whenever the counter is at
  least the initial value, and leaves the semaphore (its counter with it) as it was; in
  every state reached from \<open>BoundedSemaphore(v)\<close> by \<open>acquire\<close>, \<open>release\<close> and \<open>wait\<close>
  calls, timers that fire and scheduler turns, the counter is at most the initial value;
  and \<open>BoundedSemaphore(1).release()\<close> fails at once.
\<close>

theorem bounded_semaphore_release:
  "(initial_value b \<le> int (counter b) \<longrightarrow>
      BoundedSemaphore_release (b, rt) = (Inl ValueError, b, rt)) \<and>
   (bs_reachable v (b, rt) \<longrightarrow> int (counter b) \<le> initial_value b \<and> initial_value b = v) \<and>
   (\<exists>s. BoundedSemaphore_init 1 new_loop = Inr s \<and>
        BoundedSemaphore_release s = (Inl ValueError, s))"
proof (intro conjI impI)
  assume "initial_value b \<le> int (counter b)"
  then show "BoundedSemaphore_release (b, rt) = (Inl ValueError, b, rt)"
    by (simp add: BoundedSemaphore_release_def)
next
  assume "bs_reachable v (b, rt)"
  from bs_reachable_inv [OF this]
  show "int (counter b) \<le> initial_value b" "initial_value b = v"
    by (simp_all add: bs_inv_def)
next
  show "\<exists>s. BoundedSemaphore_init 1 new_loop = Inr s \<and>
        BoundedSemaphore_release s = (Inl ValueError, s)"
    by (simp add: eval_defs sem_defs notify_loop_Nil)
qed

theorem bounded_semaphore_release_witness:
  "initial_value \<lparr>sem_q = \<lparr>cls = Queue, maxsize = None, getters = [], putters = [], queue = [()]\<rparr>,
       sem_unlocked = \<lparr>ev_condition = \<lparr>cond_waiters = []\<rparr>, ev_flag = True\<rparr>, initial_value = 1\<rparr>
     \<le> int (counter \<lparr>sem_q = \<lparr>cls = Queue, maxsize = None, getters = [], putters = [], queue = [()]\<rparr>,
       sem_unlocked = \<lparr>ev_condition = \<lparr>cond_waiters = []\<rparr>, ev_flag = True\<rparr>, initial_value = 1\<rparr>) \<and>
   BoundedSemaphore_release
     (\<lparr>sem_q = \<lparr>cls = Queue, maxsize = None, getters = [], putters = [], queue = [()]\<rparr>,
       sem_unlocked = \<lparr>ev_condition = \<lparr>cond_waiters = []\<rparr>, ev_flag = True\<rparr>, initial_value = 1\<rparr>,
      new_loop) =
     (Inl ValueError,
      \<lparr>sem_q = \<lparr>cls = Queue, maxsize = None, getters = [], putters = [], queue = [()]\<rparr>,
       sem_unlocked = \<lparr>ev_condition = \<lparr>cond_waiters = []\<rparr>, ev_flag = True\<rparr>, initial_value = 1\<rparr>,
      new_loop) \<and>
   bs_reachable 1
     (\<lparr>sem_q = \<lparr>cls = Queue, maxsize = None, getters = [], putters = [], queue = [()]\<rparr>,
       sem_unlocked = \<lparr>ev_condition = \<lparr>cond_waiters = []\<rparr>, ev_flag = True\<rparr>, initial_value = 1\<rparr>,
      new_loop) \<and>
   int (counter \<lparr>sem_q = \<lparr>cls = Queue, maxsize = None, getters = [], putters = [], queue = [()]\<rparr>,
       sem_unlocked = \<lparr>ev_condition = \<lparr>cond_waiters = []\<rparr>, ev_flag = True\<rparr>, initial_value = 1\<rparr>)
     \<le> 1"
proof -
  let ?b = "\<lparr>sem_q = \<lparr>cls = Queue, maxsize = None, getters = [], putters = [], queue = [()]\<rparr>,
       sem_unlocked = \<lparr>ev_condition = \<lparr>cond_waiters = []\<rparr>, ev_flag = True\<rparr>, initial_value = 1\<rparr>"
  have c: "initial_value ?b \<le> int (counter ?b)"
    by (simp add: counter_def qsize_def)
  have "BoundedSemaphore_init 1 new_loop = Inr (?b, new_loop)"
    by (simp add: eval_defs sem_defs notify_loop_Nil)
  then have r: "bs_reachable 1 (?b, new_loop)"
    by (rule bs_created)
  from bounded_semaphore_release [of ?b new_loop 1] c r show ?thesis
    by simp
qed

section \<open>Flow-control errors\<close>

lemma live_after_prune:
  "(dropWhile P xs \<noteq> []) = (\<exists>x \<in> set xs. \<not> P x)"
  by (simp add: dropWhile_eq_Nil_conv)

lemma Queue_get_Empty_iff:
  "(fst (Queue_get Falsy timeout (q, rt)) = Inl Empty) =
     (queue q = [] \<and> \<not> (\<exists>p \<in> set (putters q). \<not> expired rt (snd p)))"
proof -
  have p: "(putters (consume_expired_putters rt q) \<noteq> []) = (\<exists>p \<in> set (putters q). \<not> expired rt (snd p))"
    by (simp add: consume_expired_putters_def live_after_prune)
  have s: "queue (consume_expired_putters rt q) = queue q"
    by (simp add: consume_expired_putters_def)
  show ?thesis
    unfolding p [symmetric] s [symmetric]
    by (simp add: Queue_get_def Let_def qsize_def add_callback_def split: option.splits prod.splits)
qed

lemma Queue_get_callback_not_Empty:
  "truthy callback \<Longrightarrow> fst (Queue_get callback timeout (q, rt)) \<noteq> Inl Empty"
  by (simp add: Queue_get_def Let_def Waiter_init_def check_callback_def
      split: option.splits prod.splits sum.splits callback.splits)

lemma Queue_put_Full_iff:
  "(fst (Queue_put item Falsy timeout (q, rt)) = Inl Full) =
     (maxsize q = Some (int (qsize q)) \<and> \<not> (\<exists>w \<in> set (getters q). \<not> expired rt w))"
proof -
  have g: "(getters (consume_expired_getters rt q) \<noteq> []) = (\<exists>w \<in> set (getters q). \<not> expired rt w)"
    by (simp add: consume_expired_getters_def live_after_prune)
  have s: "maxsize (consume_expired_getters rt q) = maxsize q"
    "qsize (consume_expired_getters rt q) = qsize q"
    by (simp_all add: consume_expired_getters_def qsize_def)
  show ?thesis
    unfolding g [symmetric] s [symmetric]
    by (simp add: Queue_put_def Let_def next_tick_def split: option.splits prod.splits)
qed

lemma Queue_put_callback_not_Full:
  "truthy callback \<Longrightarrow> fst (Queue_put item callback timeout (q, rt)) \<noteq> Inl Full"
  by (simp add: Queue_put_def Let_def Waiter_init_def check_callback_def next_tick_def
      split: option.splits prod.splits sum.splits callback.splits)

lemma Queue_put_unbounded_not_Full:
  "maxsize q = None \<Longrightarrow> fst (Queue_put item callback timeout (q, rt)) \<noteq> Inl Full"
  by (simp add: Queue_put_def Let_def consume_expired_getters_def check_callback_def next_tick_def
      split: option.splits prod.splits sum.splits callback.splits)

lemma AsyncResult_get_NotReady_iff:
  "(fst (AsyncResult_get Falsy timeout (r, rt)) = Inl NotReady) = (\<not> ar_ready r)"
  by (simp add: AsyncResult_get_def)

lemma AsyncResult_get_callback_not_NotReady:
  "truthy callback \<Longrightarrow> fst (AsyncResult_get callback timeout (r, rt)) \<noteq> Inl NotReady"
  by (simp add: AsyncResult_get_def Let_def Waiter_init_def check_callback_def next_tick_def
      split: option.splits prod.splits sum.splits callback.splits)

lemma no_room_iff_full:
  "queue_inv q \<Longrightarrow> (maxsize q = Some (int (qsize q))) = full q"
  by (auto simp: queue_inv_def full_def qsize_def split: option.splits)

text \<open>
  Claim C4. \<open>Queue.get\<close> without a callback raises \<open>Empty\<close> exactly when the storage holds
  no item and no live putter waits; \<open>Queue.put\<close> without a callback raises \<open>Full\<close> exactly
  when there is no room (\<open>maxsize == qsize()\<close>, which in a reachable state is \<open>full()\<close>)
  and no live getter waits; \<open>AsyncResult.get\<close> without a callback raises \<open>NotReady\<close>
  exactly when the result is unset; none of the three is raised by a call with a
  callback; and a queue of \<open>maxsize = None\<close> is never \<open>full()\<close> and never raises \<open>Full\<close>.
\<close>

theorem flow_control_errors:
  "((fst (Queue_get Falsy timeout (q, rt)) = Inl Empty) =
      (queue q = [] \<and> \<not> (\<exists>p \<in> set (putters q). \<not> expired rt (snd p)))) \<and>
   ((fst (Queue_put item Falsy timeout (q, rt)) = Inl Full) =
      (maxsize q = Some (int (qsize q)) \<and> \<not> (\<exists>w \<in> set (getters q). \<not> expired rt w))) \<and>
   (storage_ok c \<and> reachable c m (q, rt) \<longrightarrow>
      (fst (Queue_put item Falsy timeout (q, rt)) = Inl Full) =
      (full q \<and> \<not> (\<exists>w \<in> set (getters q). \<not> expired rt w))) \<and>
   ((fst (AsyncResult_get Falsy timeout (r, rt')) = Inl NotReady) = (\<not> ar_ready r)) \<and>
   (truthy callback \<longrightarrow>
      fst (Queue_get callback timeout (q, rt)) \<noteq> Inl Empty \<and>
      fst (Queue_put item callback timeout (q, rt)) \<noteq> Inl Full \<and>
      fst (AsyncResult_get callback timeout (r, rt')) \<noteq> Inl NotReady) \<and>
   (maxsize q = None \<longrightarrow>
      \<not> full q \<and> fst (Queue_put item callback timeout (q, rt)) \<noteq> Inl Full)"
proof -
  have "storage_ok c \<and> reachable c m (q, rt) \<Longrightarrow> (maxsize q = Some (int (qsize q))) = full q"
    using reachable_inv [of c m "(q, rt)"] no_room_iff_full [of q] by simp
  then show ?thesis
    using Queue_get_Empty_iff [of timeout q rt] Queue_put_Full_iff [of item timeout q rt]
      AsyncResult_get_NotReady_iff [of timeout r rt']
      Queue_get_callback_not_Empty [of callback timeout q rt]
      Queue_put_callback_not_Full [of callback item timeout q rt]
      AsyncResult_get_callback_not_NotReady [of callback timeout r rt']
      Queue_put_unbounded_not_Full [of q item callback timeout rt]
    by (auto simp: full_def)
qed

theorem flow_control_errors_witness:
  "truthy (Callable (User 0)) \<and>
   storage_ok (Queue :: int qclass) \<and>
   reachable Queue None
     (\<lparr>cls = Queue, maxsize = None, getters = [], putters = [], queue = [] :: int list\<rparr>,
      new_loop) \<and>
   fst (Queue_get Falsy None
     (\<lparr>cls = Queue, maxsize = None, getters = [], putters = [], queue = [] :: int list\<rparr>,
      new_loop)) = Inl Empty \<and>
   fst (Queue_get (Callable (User 0)) None
     (\<lparr>cls = Queue, maxsize = None, getters = [], putters = [], queue = [] :: int list\<rparr>,
      new_loop)) \<noteq> Inl Empty \<and>
   fst (Queue_put 1 Falsy None
     (\<lparr>cls = Queue, maxsize = None, getters = [], putters = [], queue = [] :: int list\<rparr>,
      new_loop)) \<noteq> Inl Full \<and>
   \<not> full \<lparr>cls = Queue, maxsize = None, getters = [], putters = [], queue = [] :: int list\<rparr> \<and>
   fst (AsyncResult_get Falsy None (AsyncResult_init :: int async_result, new_loop)) = Inl NotReady"
proof -
  let ?q = "\<lparr>cls = Queue, maxsize = None, getters = [], putters = [], queue = [] :: int list\<rparr>"
  have t: "truthy (Callable (User 0))" by simp
  have ok: "storage_ok (Queue :: int qclass)" by simp
  have r: "reachable Queue None (?q, new_loop)"
    by (rule reachable.created) (simp add: Queue_init_def)
  have u: "maxsize ?q = None" by simp
  have a: "\<not> ar_ready (AsyncResult_init :: int async_result)"
    by (simp add: AsyncResult_init_def)
  from flow_control_errors [where q = ?q and rt = new_loop and item = 1 and timeout = None
      and c = Queue and m = None and r = "AsyncResult_init :: int async_result"
      and rt' = new_loop and callback = "Callable (User 0)"] t ok r u a
  show ?thesis by simp
qed

section \<open>\<open>AsyncResult\<close>: set and its waiters\<close>

lemma trace_invoke: "trace (invoke f args rt) = trace rt @ calls f args"
  by (induction f args rt rule: invoke.induct) (simp_all add: add_callback_def)

lemma waiter_callback_invoke: "waiter_callback (invoke f args rt) = waiter_callback rt"
  by (induction f args rt rule: invoke.induct) (simp_all add: add_callback_def)

lemma trace_Waiter_run: "trace (Waiter_run w args rt) = trace rt @ waiter_calls rt args w"
  by (simp add: Waiter_run_def waiter_calls_def trace_invoke split: option.splits)

lemma waiter_cb_Waiter_run:
  "waiter_cb (Waiter_run w args rt) w' = (if w' = w then None else waiter_cb rt w')"
  by (auto simp: Waiter_run_def waiter_cb_def waiter_callback_invoke split: option.splits)

lemma waiter_calls_Waiter_run:
  "w' \<noteq> w \<Longrightarrow> waiter_calls (Waiter_run w args rt) args' w' = waiter_calls rt args' w'"
  by (simp add: waiter_calls_def waiter_cb_Waiter_run)

lemma trace_fold_Waiter_run:
  "distinct ws \<Longrightarrow>
   trace (fold (\<lambda>w. Waiter_run w args) ws rt) = trace rt @ concat (map (waiter_calls rt args) ws)"
proof (induction ws arbitrary: rt)
  case Nil
  then show ?case by simp
next
  case (Cons w ws)
  have "waiter_calls (Waiter_run w args rt) args x = waiter_calls rt args x" if "x \<in> set ws" for x
  proof -
    from that Cons.prems have "x \<noteq> w" by auto
    then show ?thesis by (rule waiter_calls_Waiter_run)
  qed
  then have eq: "map (waiter_calls (Waiter_run w args rt) args) ws = map (waiter_calls rt args) ws"
    by simp
  show ?case
    using Cons.IH [of "Waiter_run w args rt"] Cons.prems
    by (simp add: trace_Waiter_run eq)
qed

lemma expired_fold_Waiter_run:
  "expired rt w \<or> w \<in> set ws \<Longrightarrow> expired (fold (\<lambda>w. Waiter_run w args) ws rt) w"
proof (induction ws arbitrary: rt)
  case Nil
  then show ?case by simp
next
  case (Cons a ws)
  have "expired (Waiter_run a args rt) w \<or> w \<in> set ws"
    using Cons.prems by (auto simp: expired_def waiter_cb_Waiter_run)
  then show ?case using Cons.IH by simp
qed

text \<open>
  Claim C5, as stated, fails for a waiter whose timeout fired before \<open>set\<close>: its callback
  has received \<open>None\<close>, \<open>set(42)\<close> finds it expired and runs nothing, and a waiter
  registered after \<open>set\<close> receives \<open>42\<close>. The two do not observe the same value, and the
  first is never run with \<open>42\<close>.
\<close>

theorem timed_out_waiter_counterexample:
  "\<exists>s1 s2 s3 s4.
     AsyncResult_get (Callable (User 1)) (Some 1) (AsyncResult_init, new_loop) = (Inr None, s1) \<and>
     s2 = (fst s1, fire_timeout 0 (snd s1)) \<and>
     trace (snd s2) = [(1, [PyNone])] \<and>
     AsyncResult_set (Obj (42 :: int)) s2 = (Inr (), s3) \<and>
     AsyncResult_get (Callable (User 2)) None s3 = (Inr None, s4) \<and>
     trace (run_turn (snd s4)) = [(1, [PyNone]), (2, [Obj 42])] \<and>
     (1, [Obj 42]) \<notin> set (trace (run_turn (snd s4)))"
  by (simp add: eval_defs AsyncResult_init_def AsyncResult_get_def AsyncResult_set_def)

text \<open>
  Claim C5, amended. \<open>AsyncResult.set(v)\<close> raises \<open>AlreadySet\<close> if and only if the result
  is already ready, and then leaves the result and the loop as they were; otherwise it
  stores \<open>v\<close>, marks the result ready, empties the waiter list and runs the registered
  waiters with \<open>v\<close> in registration order: every waiter whose timeout has not fired has
  its callback called with \<open>v\<close>, in that order, every waiter is expired afterwards, and
  a \<open>get\<close> after \<open>set\<close> returns \<open>v\<close> or schedules its callback with \<open>v\<close>. So all
  waiters that have not timed out before \<open>set\<close>, registered before or after it, observe
  the same value.
\<close>

theorem async_result_set:
  "((fst (AsyncResult_set v (r, rt)) = Inl AlreadySet) = ar_ready r) \<and>
   (ar_ready r \<longrightarrow> AsyncResult_set v (r, rt) = (Inl AlreadySet, r, rt)) \<and>
   (\<not> ar_ready r \<longrightarrow>
      (\<exists>r' rt'. AsyncResult_set v (r, rt) = (Inr (), r', rt') \<and>
         ar_value r' = v \<and> ar_ready r' \<and> ar_waiters r' = [] \<and>
         rt' = fold (\<lambda>w. Waiter_run w [v]) (ar_waiters r) rt \<and>
         (\<forall>w \<in> set (ar_waiters r). expired rt' w) \<and>
         (distinct (ar_waiters r) \<longrightarrow>
            trace rt' = trace rt @ concat (map (waiter_calls rt [v]) (ar_waiters r))) \<and>
         AsyncResult_get Falsy timeout (r', rt') = (Inr (Some v), r', rt') \<and>
         AsyncResult_get (Callable f) timeout (r', rt') =
           (Inr None, r', add_callback (Partial f [v]) rt')))"
  by (auto simp: AsyncResult_set_def AsyncResult_get_def Let_def next_tick_def check_callback_def
      trace_fold_Waiter_run expired_fold_Waiter_run)

theorem async_result_set_witness:
  "\<not> ar_ready \<lparr>ar_ready = False, ar_value = PyNone :: int pyval, ar_waiters = [0, 1]\<rparr> \<and>
   distinct (ar_waiters \<lparr>ar_ready = False, ar_value = PyNone :: int pyval, ar_waiters = [0, 1]\<rparr>) \<and>
   trace (snd (snd (AsyncResult_set (Obj 42)
     (\<lparr>ar_ready = False, ar_value = PyNone :: int pyval, ar_waiters = [0, 1]\<rparr>,
      \<lparr>waiter_callback = [Some (User 5), Some (User 6)], pending = [], timers = [],
        trace = [], logged = []\<rparr>)))) = [(5, [Obj 42]), (6, [Obj 42])] \<and>
   ar_ready \<lparr>ar_ready = True, ar_value = Obj (42 :: int), ar_waiters = []\<rparr> \<and>
   AsyncResult_set (Obj 7) (\<lparr>ar_ready = True, ar_value = Obj (42 :: int), ar_waiters = []\<rparr>, new_loop) =
     (Inl AlreadySet, \<lparr>ar_ready = True, ar_value = Obj (42 :: int), ar_waiters = []\<rparr>, new_loop)"
proof -
  let ?r = "\<lparr>ar_ready = False, ar_value = PyNone :: int pyval, ar_waiters = [0, 1]\<rparr>"
  let ?rt = "\<lparr>waiter_callback = [Some (User 5), Some (User 6)], pending = [], timers = [],
        trace = [], logged = []\<rparr> :: int runtime"
  let ?r2 = "\<lparr>ar_ready = True, ar_value = Obj (42 :: int), ar_waiters = []\<rparr>"
  have a: "\<not> ar_ready ?r" "distinct (ar_waiters ?r)" "ar_ready ?r2" by simp_all
  have c: "concat (map (waiter_calls ?rt [Obj 42]) (ar_waiters ?r)) = [(5, [Obj 42]), (6, [Obj 42])]"
    by (simp add: waiter_calls_def waiter_cb_def)
  from async_result_set [where r = ?r and rt = ?rt and v = "Obj 42" and timeout = None
      and f = "User 0"]
    async_result_set [where r = ?r2 and rt = new_loop and v = "Obj 7" and timeout = None
      and f = "User 0"] a c
  show ?thesis by auto
qed

section \<open>Round trips through the three storage disciplines\<close>

lemma put_all_unbounded:
  "getters q = [] \<Longrightarrow> maxsize q = None \<Longrightarrow>
   put_all xs (q, rt) = Inr (q\<lparr>queue := foldl (\<lambda>s x. q_put (cls q) x s) (queue q) xs\<rparr>, rt)"
proof (induction xs arbitrary: q)
  case Nil
  then show ?case by simp
next
  case (Cons x xs)
  then show ?case
    using Cons.IH [of "q\<lparr>queue := q_put (cls q) x (queue q)\<rparr>"]
    by (simp add: Queue_put_room)
qed

lemma consume_expired_putters_none:
  "putters q = [] \<Longrightarrow> consume_expired_putters rt q = q"
  by (simp add: consume_expired_putters_def)

lemma Queue_get_available:
  assumes "putters q = []" and "queue q \<noteq> []" and "q_get (cls q) (queue q) = Some (x, r)"
  shows "Queue_get Falsy timeout (q, rt) = (Inr (Some x), q\<lparr>queue := r\<rparr>, rt)"
  using assms
  by (simp add: Queue_get_def consume_expired_putters_none qsize_def)

lemma appended_stored: "foldl (\<lambda>s x. s @ [x]) ys xs = ys @ xs"
  by (induction xs arbitrary: ys) simp_all

lemma heap_stored:
  assumes "heapq_contract I heappush heappop" and "I ys"
  shows "I (foldl (\<lambda>s x. q_put (PriorityQueue heappush heappop) x s) ys xs) \<and>
         mset (foldl (\<lambda>s x. q_put (PriorityQueue heappush heappop) x s) ys xs) = mset ys + mset xs"
  using assms(2)
proof (induction xs arbitrary: ys)
  case Nil
  then show ?case by simp
next
  case (Cons x xs)
  have "I (heappush ys x)" and "mset (heappush ys x) = add_mset x (mset ys)"
    using assms(1) Cons.prems by (auto simp: heapq_contract_def)
  then show ?case using Cons.IH [of "heappush ys x"] by simp
qed

lemma drain_fifo:
  "cls q = Queue \<Longrightarrow> putters q = [] \<Longrightarrow> queue q = ys \<Longrightarrow>
   drain (length ys) (q, rt) = Inr ys"
proof (induction ys arbitrary: q)
  case Nil
  then show ?case by simp
next
  case (Cons y ys)
  have "Queue_get Falsy None (q, rt) = (Inr (Some y), q\<lparr>queue := ys\<rparr>, rt)"
    using Cons.prems by (intro Queue_get_available) simp_all
  then show ?case
    using Cons.IH [of "q\<lparr>queue := ys\<rparr>"] Cons.prems by simp
qed

lemma drain_lifo:
  "cls q = LifoQueue \<Longrightarrow> putters q = [] \<Longrightarrow> queue q = ys \<Longrightarrow>
   drain (length ys) (q, rt) = Inr (rev ys)"
proof (induction ys arbitrary: q rule: rev_induct)
  case Nil
  then show ?case by simp
next
  case (snoc y ys)
  have "Queue_get Falsy None (q, rt) = (Inr (Some y), q\<lparr>queue := ys\<rparr>, rt)"
    using snoc.prems by (intro Queue_get_available) simp_all
  then show ?case
    using snoc.IH [of "q\<lparr>queue := ys\<rparr>"] snoc.prems by simp
qed

lemma sort_least:
  assumes "mset h = add_mset x (mset r)" and "\<forall>y \<in> set h. x \<le> y"
  shows "sort h = x # sort r"
proof (rule properties_for_sort)
  show "mset (x # sort r) = mset h" using assms(1) by simp
  have "set r \<subseteq> set h" using assms(1) by (metis mset_subset_eqD mset_subset_eq_add_mset_cancel set_mset_mset subsetI subset_mset.order_refl union_single_eq_member insert_iff set_mset_add_mset_insert)
  then show "sorted (x # sort r)" using assms(2) by auto
qed

lemma drain_heap:
  assumes c: "heapq_contract I heappush heappop"
  shows "cls q = PriorityQueue heappush heappop \<Longrightarrow> putters q = [] \<Longrightarrow> I (queue q) \<Longrightarrow>
         length (queue q) = n \<Longrightarrow> drain n (q, rt) = Inr (sort (queue q))"
proof (induction n arbitrary: q)
  case 0
  then show ?case by simp
next
  case (Suc n)
  then have ne: "queue q \<noteq> []" by auto
  then obtain x r where pop: "heappop (queue q) = Some (x, r)" and Ir: "I r"
    and ms: "mset (queue q) = add_mset x (mset r)" and least: "\<forall>y \<in> set (queue q). x \<le> y"
    using c Suc.prems(3) unfolding heapq_contract_def by blast
  have len: "length r = n"
    using ms Suc.prems(4) by (metis Suc_inject size_add_mset size_mset)
  have g: "Queue_get Falsy None (q, rt) = (Inr (Some x), q\<lparr>queue := r\<rparr>, rt)"
    using Suc.prems pop ne by (intro Queue_get_available) simp_all
  have "drain n (q\<lparr>queue := r\<rparr>, rt) = Inr (sort r)"
    using Suc.IH [of "q\<lparr>queue := r\<rparr>"] Suc.prems Ir len by simp
  then show ?case
    using g sort_least [OF ms least] by simp
qed

lemma sorted_heapq_contract: "heapq_contract sorted sorted_push sorted_pop"
  unfolding heapq_contract_def sorted_push_def sorted_pop_def
  by (auto simp: sorted_insort split: list.splits)

lemma Queue_get_available_cb:
  assumes "putters q = []" and "queue q \<noteq> []" and "q_get (cls q) (queue q) = Some (x, r)"
  shows "Queue_get (Callable (User l)) timeout (q, rt) =
           (Inr None, q\<lparr>queue := r\<rparr>, rt\<lparr>trace := trace rt @ [(l, [Obj x])]\<rparr>)"
  using assms
  by (simp add: Queue_get_def consume_expired_putters_none qsize_def run_callback_def)

lemma drain_cb_fifo:
  "cls q = Queue \<Longrightarrow> putters q = [] \<Longrightarrow> queue q = ys \<Longrightarrow>
   drain_cb l (length ys) (q, rt) =
     Inr (q\<lparr>queue := []\<rparr>, rt\<lparr>trace := trace rt @ map (\<lambda>x. (l, [Obj x])) ys\<rparr>)"
proof (induction ys arbitrary: q rt)
  case Nil
  then show ?case by simp
next
  case (Cons y ys)
  have "Queue_get (Callable (User l)) None (q, rt) =
      (Inr None, q\<lparr>queue := ys\<rparr>, rt\<lparr>trace := trace rt @ [(l, [Obj y])]\<rparr>)"
    using Cons.prems by (intro Queue_get_available_cb) simp_all
  then show ?case
    using Cons.IH [of "q\<lparr>queue := ys\<rparr>" "rt\<lparr>trace := trace rt @ [(l, [Obj y])]\<rparr>"] Cons.prems
    by simp
qed

lemma drain_cb_lifo:
  "cls q = LifoQueue \<Longrightarrow> putters q = [] \<Longrightarrow> queue q = ys \<Longrightarrow>
   drain_cb l (length ys) (q, rt) =
     Inr (q\<lparr>queue := []\<rparr>, rt\<lparr>trace := trace rt @ map (\<lambda>x. (l, [Obj x])) (rev ys)\<rparr>)"
proof (induction ys arbitrary: q rt rule: rev_induct)
  case Nil
  then show ?case by simp
next
  case (snoc y ys)
  have "Queue_get (Callable (User l)) None (q, rt) =
      (Inr None, q\<lparr>queue := ys\<rparr>, rt\<lparr>trace := trace rt @ [(l, [Obj y])]\<rparr>)"
    using snoc.prems by (intro Queue_get_available_cb) simp_all
  then show ?case
    using snoc.IH [of "q\<lparr>queue := ys\<rparr>" "rt\<lparr>trace := trace rt @ [(l, [Obj y])]\<rparr>"] snoc.prems
    by simp
qed

lemma drain_cb_heap:
  assumes c: "heapq_contract I heappush heappop"
  shows "cls q = PriorityQueue heappush heappop \<Longrightarrow> putters q = [] \<Longrightarrow> I (queue q) \<Longrightarrow>
         length (queue q) = n \<Longrightarrow>
         drain_cb l n (q, rt) =
           Inr (q\<lparr>queue := []\<rparr>,
                rt\<lparr>trace := trace rt @ map (\<lambda>x. (l, [Obj x])) (sort (queue q))\<rparr>)"
proof (induction n arbitrary: q rt)
  case 0
  then show ?case by simp
next
  case (Suc n)
  then have ne: "queue q \<noteq> []" by auto
  then obtain x r where pop: "heappop (queue q) = Some (x, r)" and Ir: "I r"
    and ms: "mset (queue q) = add_mset x (mset r)" and least: "\<forall>y \<in> set (queue q). x \<le> y"
    using c Suc.prems(3) unfolding heapq_contract_def by blast
  have len: "length r = n"
    using ms Suc.prems(4) by (metis Suc_inject size_add_mset size_mset)
  have g: "Queue_get (Callable (User l)) None (q, rt) =
      (Inr None, q\<lparr>queue := r\<rparr>, rt\<lparr>trace := trace rt @ [(l, [Obj x])]\<rparr>)"
    using Suc.prems pop ne by (intro Queue_get_available_cb) simp_all
  have "drain_cb l n (q\<lparr>queue := r\<rparr>, rt\<lparr>trace := trace rt @ [(l, [Obj x])]\<rparr>) =
      Inr (q\<lparr>queue := []\<rparr>,
           rt\<lparr>trace := trace rt @ [(l, [Obj x])] @ map (\<lambda>x. (l, [Obj x])) (sort r)\<rparr>)"
    using Suc.IH [of "q\<lparr>queue := r\<rparr>" "rt\<lparr>trace := trace rt @ [(l, [Obj x])]\<rparr>"] Suc.prems Ir len
    by simp
  then show ?case
    using g sort_least [OF ms least] by simp
qed

text \<open>
  Claim C6. Whatever items are put into a new unbounded queue and then drained by as many
  \<open>get\<close>s, with or without a callback: a \<open>Queue\<close> delivers them in the order they were
  put, a \<open>LifoQueue\<close> in the reverse of that order, and a \<open>PriorityQueue\<close> in ascending
  sorted order whatever the order of the puts, for every \<open>heappush\<close> and \<open>heappop\<close> that
  meet the contract of a min-heap.
\<close>

theorem storage_round_trips:
  "round_trip Queue xs = Inr xs \<and>
   round_trip_cb Queue l xs = Inr (map (\<lambda>x. (l, [Obj x])) xs) \<and>
   round_trip LifoQueue ys = Inr (rev ys) \<and>
   round_trip_cb LifoQueue l ys = Inr (map (\<lambda>x. (l, [Obj x])) (rev ys)) \<and>
   (heapq_contract I heappush heappop \<longrightarrow>
      round_trip (PriorityQueue heappush heappop) zs = Inr (sort zs) \<and>
      round_trip_cb (PriorityQueue heappush heappop) l zs = Inr (map (\<lambda>x. (l, [Obj x])) (sort zs)))"
proof (intro conjI impI)
  show "round_trip Queue xs = Inr xs"
    by (simp add: round_trip_def Queue_init_def put_all_unbounded appended_stored drain_fifo)
  show "round_trip LifoQueue ys = Inr (rev ys)"
    by (simp add: round_trip_def Queue_init_def put_all_unbounded appended_stored drain_lifo)
  show "round_trip_cb Queue l xs = Inr (map (\<lambda>x. (l, [Obj x])) xs)"
    by (simp add: round_trip_cb_def Queue_init_def put_all_unbounded appended_stored drain_cb_fifo
        new_loop_def)
  show "round_trip_cb LifoQueue l ys = Inr (map (\<lambda>x. (l, [Obj x])) (rev ys))"
    by (simp add: round_trip_cb_def Queue_init_def put_all_unbounded appended_stored drain_cb_lifo
        new_loop_def)
next
  assume c: "heapq_contract I heappush heappop"
  let ?h = "foldl (\<lambda>s x. q_put (PriorityQueue heappush heappop) x s) [] zs"
  let ?q = "\<lparr>cls = PriorityQueue heappush heappop, maxsize = None, getters = [], putters = [],
             queue = ?h\<rparr>"
  have I0: "I []" using c by (simp add: heapq_contract_def)
  from heap_stored [OF c I0, of zs] have Ih: "I ?h" and ms: "mset ?h = mset zs" by simp_all
  have len: "length ?h = length zs" using ms by (metis size_mset)
  have s: "sort ?h = sort zs"
    using ms by (metis mset_sort properties_for_sort sorted_sort)
  have "drain (length zs) (?q, new_loop) = Inr (sort ?h)"
    using drain_heap [OF c, of _ "length zs"] Ih len by simp
  then show "round_trip (PriorityQueue heappush heappop) zs = Inr (sort zs)"
    using s by (simp add: round_trip_def Queue_init_def put_all_unbounded)
  have "drain_cb l (length zs) (?q, new_loop) =
      Inr (?q\<lparr>queue := []\<rparr>,
           new_loop\<lparr>trace := trace new_loop @ map (\<lambda>x. (l, [Obj x])) (sort (queue ?q))\<rparr>)"
    using Ih len by (intro drain_cb_heap [OF c]) simp_all
  then show "round_trip_cb (PriorityQueue heappush heappop) l zs =
      Inr (map (\<lambda>x. (l, [Obj x])) (sort zs))"
    using s by (simp add: round_trip_cb_def Queue_init_def put_all_unbounded new_loop_def)
qed

theorem storage_round_trips_witness:
  "heapq_contract sorted (sorted_push :: int list \<Rightarrow> int \<Rightarrow> int list) sorted_pop \<and>
   round_trip (PriorityQueue sorted_push sorted_pop) [3, 1, 2 :: int] = Inr [1, 2, 3]"
proof -
  have c: "heapq_contract sorted (sorted_push :: int list \<Rightarrow> int \<Rightarrow> int list) sorted_pop"
    by (rule sorted_heapq_contract)
  from storage_round_trips [where I = sorted and heappush = sorted_push and heappop = sorted_pop
      and zs = "[3, 1, 2 :: int]" and xs = "[] :: int list" and ys = "[] :: int list"] c
  show ?thesis by simp
qed

section \<open>\<open>Semaphore.release\<close> with a parked \<open>acquire\<close>\<close>

lemma Queue_put_handed:
  assumes "cls q = Queue" and "queue q = []" and "\<exists>w \<in> set (getters q). \<not> expired rt w"
  shows "Queue_put item Falsy timeout (q, rt) =
           (Inr (),
            q\<lparr>getters := tl (dropWhile (expired rt) (getters q))\<rparr>,
            Waiter_run (hd (dropWhile (expired rt) (getters q))) [Obj item] rt)"
proof -
  have "dropWhile (expired rt) (getters q) \<noteq> []"
    using assms(3) by (simp add: live_after_prune)
  then show ?thesis
    using assms(1,2)
    by (simp add: Queue_put_def consume_expired_getters_def next_tick_def)
qed

lemma trace_fold_extends:
  "\<exists>ys. trace (fold (\<lambda>w. Waiter_run w args) ws rt) = trace rt @ ys"
proof (induction ws arbitrary: rt)
  case Nil
  then show ?case by simp
next
  case (Cons w ws)
  obtain ys where "trace (fold (\<lambda>w. Waiter_run w args) ws (Waiter_run w args rt)) =
      trace (Waiter_run w args rt) @ ys"
    using Cons.IH by blast
  then show ?case by (simp add: trace_Waiter_run)
qed

lemma Event_set_runtime:
  "\<exists>ws. snd (Event_set (e, rt)) = fold (\<lambda>w. Waiter_run w []) ws rt"
  by (auto simp: Event_set_def Condition_notify_all_def Condition_notify_def Let_def)

lemma Event_set_flag: "ev_flag (fst (Event_set (e, rt)))"
  by (simp add: Event_set_def Let_def)

text \<open>
  Claim C10. When \<open>release()\<close> is called on a semaphore whose counter is \<open>0\<close> and in whose
  queue a live getter waits (an \<open>acquire\<close> with a callback that is parked), the token
  goes to the first live waiter, which is run with it; when \<open>release\<close> returns the counter
  is still \<open>0\<close> and \<open>locked()\<close> still true, yet the \<open>unlocked\<close> event is set, so that a
  \<open>wait(cb)\<close> made afterwards has \<open>cb\<close> scheduled for the next turn, the semaphore being
  locked.
\<close>

theorem release_with_parked_acquire:
  assumes "cls (sem_q s) = Queue" and "counter s = 0"
    and "\<exists>w \<in> set (getters (sem_q s)). \<not> expired rt w"
  shows "\<exists>s' rt'. Semaphore_release (s, rt) = (Inr (), s', rt') \<and>
           counter s' = 0 \<and> locked s' \<and> ev_flag (sem_unlocked s') \<and>
           expired rt' (hd (dropWhile (expired rt) (getters (sem_q s)))) \<and>
           (\<exists>ys. trace rt' = trace rt @
              waiter_calls rt [Obj ()] (hd (dropWhile (expired rt) (getters (sem_q s)))) @ ys) \<and>
           (\<forall>f timeout. Semaphore_wait (Callable f) timeout (s', rt') =
              (Inr (), s', add_callback (Partial f []) rt'))"
proof -
  let ?w = "hd (dropWhile (expired rt) (getters (sem_q s)))"
  let ?q1 = "(sem_q s)\<lparr>getters := tl (dropWhile (expired rt) (getters (sem_q s)))\<rparr>"
  let ?rt1 = "Waiter_run ?w [Obj ()] rt"
  let ?s' = "s\<lparr>sem_q := ?q1, sem_unlocked := fst (Event_set (sem_unlocked s, ?rt1))\<rparr>"
  let ?rt' = "snd (Event_set (sem_unlocked s, ?rt1))"
  have e: "queue (sem_q s) = []" using assms(2) by (simp add: counter_def qsize_def)
  have p: "Queue_put () Falsy None (sem_q s, rt) = (Inr (), ?q1, ?rt1)"
    using Queue_put_handed [OF assms(1) e assms(3)] by simp
  have rel: "Semaphore_release (s, rt) = (Inr (), ?s', ?rt')"
    by (simp add: Semaphore_release_def p Let_def)
  obtain ws where ws: "?rt' = fold (\<lambda>w. Waiter_run w []) ws ?rt1"
    using Event_set_runtime by blast
  have x1: "expired ?rt1 ?w" by (simp add: expired_def waiter_cb_Waiter_run)
  have x: "expired ?rt' ?w" unfolding ws using x1 by (intro expired_fold_Waiter_run) simp
  obtain ys where "trace ?rt' = trace ?rt1 @ ys"
    unfolding ws using trace_fold_extends by blast
  then have t: "\<exists>ys. trace ?rt' = trace rt @ waiter_calls rt [Obj ()] ?w @ ys"
    by (simp add: trace_Waiter_run)
  have f: "ev_flag (sem_unlocked ?s')" by (simp add: Event_set_flag)
  have c: "counter ?s' = 0" "locked ?s'" using e by (simp_all add: counter_def locked_def qsize_def empty_def)
  have w: "Semaphore_wait (Callable f) timeout (?s', ?rt') =
              (Inr (), ?s', add_callback (Partial f []) ?rt')" for f timeout
    using f by (simp add: Semaphore_wait_def Event_wait_def next_tick_def check_callback_def)
  show ?thesis using rel x t f c w by blast
qed

theorem release_with_parked_acquire_witness:
  "cls (sem_q \<lparr>sem_q = \<lparr>cls = Queue, maxsize = None, getters = [0], putters = [], queue = []\<rparr>,
        sem_unlocked = Event_init\<rparr>) = Queue \<and>
   counter \<lparr>sem_q = \<lparr>cls = Queue, maxsize = None, getters = [0], putters = [], queue = []\<rparr>,
        sem_unlocked = Event_init\<rparr> = 0 \<and>
   \<not> expired (\<lparr>waiter_callback = [Some (AcquireLambda (User 1))], pending = [], timers = [],
        trace = [], logged = []\<rparr> :: unit runtime) 0 \<and>
   (\<exists>s0. Semaphore_init 0 new_loop = Inr s0 \<and>
      Semaphore_acquire (Callable (User 1)) None s0 =
        (Inr None,
         \<lparr>sem_q = \<lparr>cls = Queue, maxsize = None, getters = [0], putters = [], queue = []\<rparr>,
           sem_unlocked = Event_init\<rparr>,
         \<lparr>waiter_callback = [Some (AcquireLambda (User 1))], pending = [], timers = [],
           trace = [], logged = []\<rparr>)) \<and>
   (\<exists>s' rt'. Semaphore_release
       (\<lparr>sem_q = \<lparr>cls = Queue, maxsize = None, getters = [0], putters = [], queue = []\<rparr>,
          sem_unlocked = Event_init\<rparr>,
        \<lparr>waiter_callback = [Some (AcquireLambda (User 1))], pending = [], timers = [],
          trace = [], logged = []\<rparr>) = (Inr (), s', rt') \<and>
      locked s' \<and> ev_flag (sem_unlocked s') \<and> trace rt' = [(1, [PyBool True])] \<and>
      Semaphore_wait (Callable (User 2)) None (s', rt') =
        (Inr (), s', add_callback (Partial (User 2) []) rt'))"
proof -
  let ?s = "\<lparr>sem_q = \<lparr>cls = Queue, maxsize = None, getters = [0], putters = [], queue = []\<rparr>,
        sem_unlocked = Event_init\<rparr>"
  let ?rt = "\<lparr>waiter_callback = [Some (AcquireLambda (User 1))], pending = [], timers = [],
        trace = [], logged = []\<rparr> :: unit runtime"
  have a: "cls (sem_q ?s) = Queue" "counter ?s = 0" by (simp_all add: counter_def qsize_def)
  have l: "\<not> expired ?rt 0" by (simp add: expired_def waiter_cb_def)
  then have b: "\<exists>w \<in> set (getters (sem_q ?s)). \<not> expired ?rt w" by simp
  have acq: "\<exists>s0. Semaphore_init 0 new_loop = Inr s0 \<and>
      Semaphore_acquire (Callable (User 1)) None s0 = (Inr None, ?s, ?rt)"
    by (simp add: eval_defs sem_defs)
  have t: "trace (snd (snd (Semaphore_release (?s, ?rt)))) = [(1, [PyBool True])]"
    by (simp add: eval_defs sem_defs notify_loop_Nil)
  from release_with_parked_acquire [OF a b]
  obtain s' rt' where r: "Semaphore_release (?s, ?rt) = (Inr (), s', rt')"
    and k: "locked s'" "ev_flag (sem_unlocked s')"
    and w: "\<forall>f timeout. Semaphore_wait (Callable f) timeout (s', rt') =
              (Inr (), s', add_callback (Partial f []) rt')"
    by blast
  have t': "trace rt' = [(1, [PyBool True])]" using t r by simp
  have ex: "\<exists>s' rt'. Semaphore_release (?s, ?rt) = (Inr (), s', rt') \<and>
      locked s' \<and> ev_flag (sem_unlocked s') \<and> trace rt' = [(1, [PyBool True])] \<and>
      Semaphore_wait (Callable (User 2)) None (s', rt') =
        (Inr (), s', add_callback (Partial (User 2) []) rt')"
    using r k w t' by blast
  from a l acq ex show ?thesis by blast
qed

section \<open>Callbacks that are not callable\<close>

text \<open>
  Where a truthy object that is not callable is given as the callback, these calls raise
  \<open>TypeError\<close> at once: \<open>Queue.put\<close> on every path (after the item has been handed over
  or stored, where there is a getter or room), \<open>Queue.get\<close> when it has to park the
  getter, \<open>AsyncResult.get\<close>, \<open>Condition.wait\<close> (a falsy object too), \<open>Event.wait\<close>,
  \<open>Semaphore.acquire\<close> and \<open>JoinableQueue.join\<close>.
\<close>

lemma Queue_put_junk:
  assumes inv: "queue_inv q"
  shows "fst (Queue_put item Junk timeout (q, rt)) = Inl TypeError"
proof -
  define p where "p = consume_expired_getters rt q"
  have invp: "queue_inv p" unfolding p_def using inv by (rule consume_expired_getters_inv)
  then have ok: "storage_ok (cls p)" by (simp add: queue_inv_def)
  obtain y r where yr: "q_get (cls p) (q_put (cls p) item (queue p)) = Some (y, r)"
    using q_get_after_put [OF ok] by blast
  have e: "getters p \<noteq> [] \<Longrightarrow> queue p = []" using invp by (simp add: queue_inv_def)
  show ?thesis
    using yr e
    unfolding Queue_put_def Let_def snd_conv fst_conv p_def [symmetric]
    by (auto simp: next_tick_def check_callback_def)
qed

lemma Queue_get_junk_parks:
  assumes "queue q = []" and "\<not> (\<exists>p \<in> set (putters q). \<not> expired rt (snd p))"
  shows "Queue_get Junk timeout (q, rt) = (Inl TypeError, consume_expired_putters rt q, rt)"
proof -
  have "putters (consume_expired_putters rt q) = []"
    using assms(2) by (simp add: consume_expired_putters_def dropWhile_eq_Nil_conv)
  moreover have "queue (consume_expired_putters rt q) = []"
    using assms(1) by (simp add: consume_expired_putters_def)
  ultimately show ?thesis
    by (simp add: Queue_get_def Let_def qsize_def Waiter_init_def check_callback_def)
qed

lemma junk_callback_type_error:
  "fst (AsyncResult_get Junk timeout (r, rt)) = Inl TypeError"
  "fst (Condition_wait Junk timeout (c, rt)) = Inl TypeError"
  "fst (Condition_wait Falsy timeout (c, rt)) = Inl TypeError"
  "fst (Event_wait Junk timeout (e, rt)) = Inl TypeError"
  "fst (Semaphore_acquire Junk timeout (s, rt')) = Inl TypeError"
  "fst (JoinableQueue_join Junk timeout (jq, rt)) = Inl TypeError"
  by (simp_all add: AsyncResult_get_def Condition_wait_def Event_wait_def Semaphore_acquire_def
      JoinableQueue_join_def Waiter_init_def next_tick_def check_callback_def Let_def)

text \<open>
  Claim C9 at the input where the code departs from it: \<open>q = Queue()\<close>, \<open>q.put(1)\<close>,
  then \<open>q.get(callback=5)\<close>. The call returns normally: \<open>_run_callback\<close> calls the
  object inside its \<open>try\<close>, catches the \<open>TypeError\<close> and logs it, and the item taken
  from the storage is lost (the next \<open>get()\<close> raises \<open>Empty\<close>). The same happens on
  the path of a parked putter: \<open>Queue(maxsize=0)\<close>, \<open>q.put(2, p)\<close>, \<open>q.get(callback=5)\<close>
  logs the \<open>TypeError\<close>, drops the item and releases the putter.
\<close>

theorem get_swallows_type_error:
  "\<exists>q0 s1 s2 s3.
     Queue_init Queue None = Inr q0 \<and>
     Queue_put (1 :: int) Falsy None (q0, new_loop) = (Inr (), s1) \<and>
     queue (fst s1) = [1] \<and>
     Queue_get Junk None s1 = (Inr None, s2) \<and>
     queue (fst s2) = [] \<and> logged (snd s2) = [TypeError] \<and>
     trace (snd s2) = [] \<and> pending (snd s2) = [] \<and> timers (snd s2) = [] \<and>
     Queue_get Falsy None s2 = (Inl Empty, s3) \<and>
     (\<exists>r0 t1 t2.
        Queue_init Queue (Some 0) = Inr r0 \<and>
        Queue_put (2 :: int) (Callable (User p)) None (r0, new_loop) = (Inr (), t1) \<and>
        putters (fst t1) = [(2, 0)] \<and>
        Queue_get Junk None t1 = (Inr None, t2) \<and>
        putters (fst t2) = [] \<and> queue (fst t2) = [] \<and> logged (snd t2) = [TypeError] \<and>
        trace (run_turn (snd t2)) = [(p, [PyBool True])])"
  by (simp add: eval_defs)

end
